theory Spec2Isabelle
  imports
    Main
    "HOL-Library.AList"
    "HOL-Library.Sublist"
    "HOL-Library.Char_ord"
    "HOL-Library.List_Lexorder"
    "HOL-Library.Multiset"
begin

section \<open>Python values as the scripts see them\<close>

text \<open>
  Both scripts work on what \<^verbatim>\<open>json.loads\<close> (or \<^verbatim>\<open>request.json()\<close>) returns: dynamically
  typed values. They are modelled as such, so that every subscript, iteration and
  conversion of the source can fail in the model the way it fails in Python.
  A JSON object is the list of the items of the parsed \<^verbatim>\<open>dict\<close> (keys distinct).
  JSON numbers with a fraction or an exponent (Python \<^verbatim>\<open>float\<close>) are not modelled:
  no field of the queries below is of a floating-point type.
\<close>

datatype json =
    JNull
  | JBool bool
  | JInt int
  | JStr string
  | JList "json list"
  | JObj "(string \<times> json) list"

text \<open>
  Exceptions are values. \<open>QueryFailed status query\<close> is the \<^verbatim>\<open>Exception\<close> raised by
  \<^verbatim>\<open>run_query\<close>; \<open>SystemExit e result\<close> is the \<^verbatim>\<open>except KeyError\<close> branch of
  \<^verbatim>\<open>get_nodes\<close> in graal\_report.py: the traceback of \<open>e\<close> and the response \<open>result\<close> have
  been printed and \<^verbatim>\<open>SystemExit()\<close> has been raised. \<open>HTTPError status\<close> is the
  \<^verbatim>\<open>urllib.error.HTTPError\<close> that \<^verbatim>\<open>urlopen\<close> raises for a response it does not accept; it has
  the status and the url, not the query. \<open>TransportError\<close> stands for whatever else an
  HTTP library raises (no connection, a timeout).
\<close>

datatype error =
    QueryFailed int string
  | KeyError string
  | TypeError
  | ValueError
  | AttributeError
  | TransportError string
  | HTTPError int
  | SystemExit error json

definition bindE :: "error + 'a \<Rightarrow> ('a \<Rightarrow> error + 'b) \<Rightarrow> error + 'b" where
  "bindE m f = (case m of Inl e \<Rightarrow> Inl e | Inr x \<Rightarrow> f x)"

text \<open>\<^verbatim>\<open>x[k]\<close> for a string \<open>k\<close>: only a dict can be subscripted by a string.\<close>

fun subscr :: "json \<Rightarrow> string \<Rightarrow> error + json" where
  "subscr (JObj kvs) k = (case map_of kvs k of None \<Rightarrow> Inl (KeyError k) | Some v \<Rightarrow> Inr v)"
| "subscr _ k = Inl TypeError"

text \<open>Truth value of an object, as \<^verbatim>\<open>if x:\<close> tests it.\<close>

fun truthy :: "json \<Rightarrow> bool" where
  "truthy JNull = False"
| "truthy (JBool b) = b"
| "truthy (JInt n) = (n \<noteq> 0)"
| "truthy (JStr s) = (s \<noteq> [])"
| "truthy (JList xs) = (xs \<noteq> [])"
| "truthy (JObj kvs) = (kvs \<noteq> [])"

text \<open>\<^verbatim>\<open>x == True\<close>: in Python \<^verbatim>\<open>1 == True\<close> holds.\<close>

fun py_eq_True :: "json \<Rightarrow> bool" where
  "py_eq_True (JBool b) = b"
| "py_eq_True (JInt n) = (n = 1)"
| "py_eq_True _ = False"

text \<open>
  \<^verbatim>\<open>for e in x\<close>: a list yields its elements, a dict its keys, a string its characters;
  \<^verbatim>\<open>None\<close>, booleans and integers are not iterable.
\<close>

fun py_iter :: "json \<Rightarrow> error + json list" where
  "py_iter (JList xs) = Inr xs"
| "py_iter (JObj kvs) = Inr (map (\<lambda>kv. JStr (fst kv)) kvs)"
| "py_iter (JStr s) = Inr (map (\<lambda>c. JStr [c]) s)"
| "py_iter _ = Inl TypeError"

text \<open>
  A value used as a dict key or a set element must be hashable (lists and dicts are not).
  \<^verbatim>\<open>True\<close> and \<^verbatim>\<open>1\<close> (\<^verbatim>\<open>False\<close> and \<^verbatim>\<open>0\<close>) are the same key, so a boolean key is
  represented by its integer.
\<close>

fun dict_key :: "json \<Rightarrow> error + json" where
  "dict_key (JList xs) = Inl TypeError"
| "dict_key (JObj kvs) = Inl TypeError"
| "dict_key (JBool b) = Inr (JInt (if b then 1 else 0))"
| "dict_key j = Inr j"

text \<open>
  Python built-ins whose full behaviour lies outside the repository are parameters of
  the model: \<^verbatim>\<open>str(x)\<close> on a value that is not a string, \<^verbatim>\<open>int(s)\<close> on a string, and
  \<^verbatim>\<open>datetime.fromisoformat\<close>. Every theorem holds for every choice of them.
\<close>

text \<open>
  A \<^verbatim>\<open>datetime\<close> object is always a valid date and time, so it is represented by the
  number of microseconds of its wall-clock fields since 0001-01-01T00:00:00, together
  with its UTC offset in microseconds (\<open>None\<close> for a naive datetime).
\<close>

record datetime =
  wall :: int
  utcoffset :: "int option"

record builtins =
  str_of :: "json \<Rightarrow> string"
  int_of_str :: "string \<Rightarrow> int option"
  fromisoformat :: "string \<Rightarrow> datetime option"

definition py_str :: "builtins \<Rightarrow> json \<Rightarrow> string" where
  "py_str B j = (case j of JStr s \<Rightarrow> s | _ \<Rightarrow> str_of B j)"

fun py_int :: "builtins \<Rightarrow> json \<Rightarrow> error + int" where
  "py_int B (JInt n) = Inr n"
| "py_int B (JBool b) = Inr (if b then 1 else 0)"
| "py_int B (JStr s) = (case int_of_str B s of None \<Rightarrow> Inl ValueError | Some n \<Rightarrow> Inr n)"
| "py_int B _ = Inl TypeError"

subsection \<open>Datetimes\<close>

definition us_per_day :: int where
  "us_per_day = 86400000000"

text \<open>The instant a datetime denotes (for a naive one, its wall-clock value).\<close>

definition instant :: "datetime \<Rightarrow> int" where
  "instant d = (case utcoffset d of None \<Rightarrow> wall d | Some off \<Rightarrow> wall d - off)"

text \<open>\<^verbatim>\<open>a > b\<close>: comparing a naive with an aware datetime raises \<^verbatim>\<open>TypeError\<close>.\<close>

definition dt_gt :: "datetime \<Rightarrow> datetime \<Rightarrow> error + bool" where
  "dt_gt a b =
     (if (utcoffset a = None) = (utcoffset b = None) then Inr (instant b < instant a)
      else Inl TypeError)"

text \<open>\<^verbatim>\<open>(a - b).days\<close>: a \<^verbatim>\<open>timedelta\<close> is normalised, so \<^verbatim>\<open>days\<close> is the floor.\<close>

definition dt_sub_days :: "datetime \<Rightarrow> datetime \<Rightarrow> error + int" where
  "dt_sub_days a b =
     (if (utcoffset a = None) = (utcoffset b = None)
      then Inr ((instant a - instant b) div us_per_day)
      else Inl TypeError)"

text \<open>
  \<^verbatim>\<open>d.year\<close>, computed from the proleptic Gregorian ordinal of the date (day 1 is
  0001-01-01) the way Python's \<^verbatim>\<open>_ord2ymd\<close> does: 400-year cycles of 146097 days,
  centuries of 36524 days, 4-year cycles of 1461 days, years of 365 days.
\<close>

definition year_of_ordinal :: "int \<Rightarrow> int" where
  "year_of_ordinal ordinal =
     (let n = ordinal - 1;
          n400 = n div 146097; n = n mod 146097;
          n100 = n div 36524; n = n mod 36524;
          n4 = n div 1461; n = n mod 1461;
          n1 = n div 365;
          year = n400 * 400 + 1 + n100 * 100 + n4 * 4 + n1
      in if n1 = 4 \<or> n100 = 4 then year - 1 else year)"

definition dt_year :: "datetime \<Rightarrow> int" where
  "dt_year d = year_of_ordinal (wall d div us_per_day + 1)"

text \<open>
  \<^verbatim>\<open>
  def parse_datetime(s):
      if s.endswith('Z'):
          s = s[0:-1]
      return datetime.datetime.fromisoformat(s)
  \<close>
  Only a string has \<^verbatim>\<open>endswith\<close>.
\<close>

fun parse_datetime :: "builtins \<Rightarrow> json \<Rightarrow> error + datetime" where
  "parse_datetime B (JStr s) =
     (let s' = (if s \<noteq> [] \<and> last s = CHR ''Z'' then butlast s else s)
      in case fromisoformat B s' of None \<Rightarrow> Inl ValueError | Some d \<Rightarrow> Inr d)"
| "parse_datetime B _ = Inl AttributeError"

section \<open>The transport\<close>

text \<open>
  The HTTP transport is an external collaborator. It is a parameter: \<open>tr k q\<close> is what
  the \<open>k\<close>-th request of the process gets when it sends the query document \<open>q\<close>: no
  response at all (the library raises), or the response of the server, after redirects,
  with its status and its body; \<open>body\<close> is what reading, decoding and \<^verbatim>\<open>json.loads\<close> give
  for it (or raise).
\<close>

datatype response = Response (status: int) (body: "error + json")

type_synonym transport = "nat \<Rightarrow> string \<Rightarrow> error + response"

text \<open>
  graal\_report.py:
  \<^verbatim>\<open>
  def run_query(query):
      req = urllib.request.Request(url=..., data=json.dumps({'query' : query})..., headers=headers)
      with urllib.request.urlopen(req) as f:
          if f.status == 200:
              result = f.read().decode('utf-8')
              return json.loads(result)
          else:
              raise Exception("Query failed to run by returning code of {}. {}".format(f.status, query))
  \<close>
  \<^verbatim>\<open>urlopen\<close> hands over a response only when its status is in 200..299: for any other
  status its \<^verbatim>\<open>HTTPErrorProcessor\<close> raises \<^verbatim>\<open>HTTPError\<close> before \<^verbatim>\<open>f.status\<close> is read. So the
  \<^verbatim>\<open>else\<close> branch is reached for the statuses 201..299 only.
\<close>

definition run_query :: "transport \<Rightarrow> nat \<Rightarrow> string \<Rightarrow> error + json" where
  "run_query tr k query =
     (case tr k query of
        Inl e \<Rightarrow> Inl e
      | Inr r \<Rightarrow>
          if \<not> (200 \<le> status r \<and> status r < 300) then Inl (HTTPError (status r))
          else if status r = 200 then body r
          else Inl (QueryFailed (status r) query))"

text \<open>
  unassigned\_issues.py:
  \<^verbatim>\<open>
  def run_query(query):
      request = requests.post('https://api.github.com/graphql', json={'query': query}, headers=headers)
      if request.status_code == 200:
          return request.json()
      else:
          raise Exception("Query failed to run by returning code of {}. {}".format(request.status_code, query))
  \<close>
  \<^verbatim>\<open>requests.post\<close> returns the response whatever its status is.
\<close>

definition ui_run_query :: "transport \<Rightarrow> nat \<Rightarrow> string \<Rightarrow> error + json" where
  "ui_run_query tr k query =
     (case tr k query of
        Inl e \<Rightarrow> Inl e
      | Inr r \<Rightarrow> if status r = 200 then body r else Inl (QueryFailed (status r) query))"

section \<open>Query documents\<close>

definition nl :: string where
  "nl = [CHR 0x0A]"

definition dq :: string where
  "dq = [CHR 0x22]"

definition unlines :: "string list \<Rightarrow> string" where
  "unlines ls = concat (map (\<lambda>l. l @ nl) ls)"

text \<open>The field selection \<^verbatim>\<open>_node_info1\<close> of graal\_report.py (it starts with a newline).\<close>

definition node_info1 :: string where
  "node_info1 = nl @ unlines
     [''number'',
      ''url'',
      ''title'',
      ''assignees(first: 1) {'',
      ''  totalCount'',
      ''}'',
      ''timelineItems(last:10) {'',
      ''  edges {'',
      ''    node {'',
      ''      ... on IssueComment {'',
      ''        updatedAt'',
      ''        url'',
      ''        author {'',
      ''          ... on User {'',
      ''              organization(login: '' @ dq @ ''oracle'' @ dq @ '') {'',
      ''              login'',
      ''            }'',
      ''          }'',
      ''          login'',
      ''        }'',
      ''      }'',
      ''    }'',
      ''  }'',
      ''}'']"

text \<open>The field selection \<^verbatim>\<open>_node_info2\<close> of graal\_report.py.\<close>

definition node_info2 :: string where
  "node_info2 = nl @ unlines
     [''number'',
      ''author {'',
      ''  ... on User {'',
      ''    login'',
      ''    organizations(first:5) {'',
      ''      edges {'',
      ''        node {'',
      ''          login'',
      ''        }'',
      ''      }'',
      ''    }'',
      ''  }'',
      ''}'',
      ''createdAt'',
      ''closedAt'']"

text \<open>
  graal\_report.py:
  \<^verbatim>\<open>
  def get_open_nodes_query(node_type, node_info, states, cursor=None):
      after = '"{}"'.format(cursor) if cursor else 'null'
      return """ ... """ + node_type + """s(first: 100, states:""" + states + """, after:""" + after + """) {
          ... node {""" + node_info + """ } ... """
  \<close>
  The cursor is tested for truth, so an empty-string cursor is sent as \<^verbatim>\<open>null\<close>.
\<close>

definition get_open_nodes_query :: "builtins \<Rightarrow> string \<Rightarrow> string \<Rightarrow> string \<Rightarrow> json \<Rightarrow> string" where
  "get_open_nodes_query B node_type node_info states cursor =
     (let after = (if truthy cursor then dq @ py_str B cursor @ dq else ''null'')
      in nl @ ''{'' @ nl
         @ ''  repositoryOwner(login: '' @ dq @ ''oracle'' @ dq @ '') {'' @ nl
         @ ''    repository(name: '' @ dq @ ''graal'' @ dq @ '') {'' @ nl
         @ ''      '' @ node_type @ ''s(first: 100, states:'' @ states @ '', after:'' @ after @ '') {'' @ nl
         @ ''        totalCount'' @ nl
         @ ''        pageInfo {'' @ nl
         @ ''          hasNextPage'' @ nl
         @ ''          endCursor'' @ nl
         @ ''        }'' @ nl
         @ ''        edges {'' @ nl
         @ ''          node {'' @ node_info @ '' }'' @ nl
         @ ''        }'' @ nl
         @ ''      }'' @ nl
         @ ''    }'' @ nl
         @ ''  }'' @ nl
         @ ''}'' @ nl)"

text \<open>
  unassigned\_issues.py:
  \<^verbatim>\<open>
  def get_open_nodes_query(node_type, cursor=None):
      after = ', after: "{}"'.format(cursor) if cursor is not None else ''
      return """ ... """ + node_type + """s(first: 100, states:OPEN""" + after + """) { ... """
  \<close>
  Here the cursor is compared with \<^verbatim>\<open>None\<close>, not tested for truth.
\<close>

definition ui_get_open_nodes_query :: "builtins \<Rightarrow> string \<Rightarrow> json \<Rightarrow> string" where
  "ui_get_open_nodes_query B node_type cursor =
     (let after = (if cursor \<noteq> JNull then '', after: '' @ dq @ py_str B cursor @ dq else '''')
      in nl @ ''{'' @ nl
         @ ''  repositoryOwner(login: '' @ dq @ ''oracle'' @ dq @ '') {'' @ nl
         @ ''    repository(name: '' @ dq @ ''graal'' @ dq @ '') {'' @ nl
         @ ''      '' @ node_type @ ''s(first: 100, states:OPEN'' @ after @ '') {'' @ nl
         @ ''        totalCount'' @ nl
         @ ''        pageInfo {'' @ nl
         @ ''          hasNextPage'' @ nl
         @ ''          endCursor'' @ nl
         @ ''        }'' @ nl
         @ ''        edges {'' @ nl
         @ ''          node {'' @ nl
         @ ''            number'' @ nl
         @ ''            url'' @ nl
         @ ''            state'' @ nl
         @ ''            title'' @ nl
         @ ''            assignees(first: 1) {'' @ nl
         @ ''              totalCount'' @ nl
         @ ''            }'' @ nl
         @ ''          }'' @ nl
         @ ''        }'' @ nl
         @ ''      }'' @ nl
         @ ''    }'' @ nl
         @ ''  }'' @ nl
         @ ''}'' @ nl)"

section \<open>The paginator\<close>

text \<open>
  A NodeSet is the Python dict \<^verbatim>\<open>all_nodes\<close>: its items in insertion order. Assigning
  to an existing key replaces the value in place, assigning to a new key appends, which
  is \<^const>\<open>AList.update\<close>.
\<close>

type_synonym nodeset = "(json \<times> json) list"

text \<open>
  \<^verbatim>\<open>
  for e in edges:
      node = e["node"]
      all_nodes[node["number"]] = node
  \<close>
\<close>

fun merge_edges :: "json list \<Rightarrow> nodeset \<Rightarrow> error + nodeset" where
  "merge_edges [] all_nodes = Inr all_nodes"
| "merge_edges (e # es) all_nodes =
     (case subscr e ''node'' of
        Inl err \<Rightarrow> Inl err
      | Inr node \<Rightarrow>
          (case subscr node ''number'' of
             Inl err \<Rightarrow> Inl err
           | Inr number \<Rightarrow>
               (case dict_key number of
                  Inl err \<Rightarrow> Inl err
                | Inr k \<Rightarrow> merge_edges es (AList.update k node all_nodes))))"

text \<open>
  The body of the \<^verbatim>\<open>while True\<close> loop after the query has been answered (the statements
  inside \<^verbatim>\<open>try\<close> in graal\_report.py, the same statements in unassigned\_issues.py):
  \<^verbatim>\<open>
  nodes = result["data"]["repositoryOwner"]["repository"][node_type + "s"]
  edges = nodes["edges"]
  for e in edges: ...
  page_info = nodes["pageInfo"]
  if page_info["hasNextPage"] != True:
      break
  else:
      endCursor = page_info["endCursor"]
  \<close>
  The result is the updated \<^verbatim>\<open>all_nodes\<close> and \<open>None\<close> for \<^verbatim>\<open>break\<close>, or the new
  \<^verbatim>\<open>endCursor\<close>.
\<close>

definition page_step :: "string \<Rightarrow> json \<Rightarrow> nodeset \<Rightarrow> error + (nodeset \<times> json option)" where
  "page_step node_type result all_nodes =
     bindE (subscr result ''data'') (\<lambda>d.
     bindE (subscr d ''repositoryOwner'') (\<lambda>owner.
     bindE (subscr owner ''repository'') (\<lambda>repo.
     bindE (subscr repo (node_type @ ''s'')) (\<lambda>nodes.
     bindE (subscr nodes ''edges'') (\<lambda>edges.
     bindE (py_iter edges) (\<lambda>es.
     bindE (merge_edges es all_nodes) (\<lambda>all_nodes'.
     bindE (subscr nodes ''pageInfo'') (\<lambda>page_info.
     bindE (subscr page_info ''hasNextPage'') (\<lambda>has_next.
       if \<not> py_eq_True has_next then Inr (all_nodes', None)
       else bindE (subscr page_info ''endCursor'') (\<lambda>c. Inr (all_nodes', Some c)))))))))))"

text \<open>
  \<^verbatim>\<open>
  except KeyError as e:
      traceback.print_exc()
      print(result)
      raise SystemExit()
  \<close>
  Only \<^verbatim>\<open>KeyError\<close> is caught; any other exception propagates as it is.
\<close>

definition except_KeyError :: "json \<Rightarrow> error + 'a \<Rightarrow> error + 'a" where
  "except_KeyError result r =
     (case r of
        Inl (KeyError k) \<Rightarrow> Inl (SystemExit (KeyError k) result)
      | _ \<Rightarrow> r)"

text \<open>
  The \<^verbatim>\<open>while True\<close> loop of \<^verbatim>\<open>get_nodes\<close> in graal\_report.py. It ends only when a page
  says so or an exception is raised, so it is a partial function: \<open>None\<close> is the run that
  never returns. \<open>k\<close> counts the requests made by the process so far; the loop returns
  the count with its result.
\<close>

partial_function (option) get_nodes_loop ::
  "builtins \<Rightarrow> transport \<Rightarrow> string \<Rightarrow> string \<Rightarrow> string \<Rightarrow> nodeset \<Rightarrow> json \<Rightarrow> nat
     \<Rightarrow> ((error + nodeset) \<times> nat) option" where
  "get_nodes_loop B tr node_type node_info states all_nodes endCursor k =
     (case run_query tr k (get_open_nodes_query B node_type node_info states endCursor) of
        Inl e \<Rightarrow> Some (Inl e, Suc k)
      | Inr result \<Rightarrow>
          (case except_KeyError result (page_step node_type result all_nodes) of
             Inl e \<Rightarrow> Some (Inl e, Suc k)
           | Inr (all_nodes', None) \<Rightarrow> Some (Inr all_nodes', Suc k)
           | Inr (all_nodes', Some c) \<Rightarrow>
               get_nodes_loop B tr node_type node_info states all_nodes' c (Suc k)))"

text \<open>The same loop in unassigned\_issues.py: no \<^verbatim>\<open>try\<close>, its own query builder.\<close>

partial_function (option) ui_get_nodes_loop ::
  "builtins \<Rightarrow> transport \<Rightarrow> string \<Rightarrow> nodeset \<Rightarrow> json \<Rightarrow> nat
     \<Rightarrow> ((error + nodeset) \<times> nat) option" where
  "ui_get_nodes_loop B tr node_type all_nodes endCursor k =
     (case ui_run_query tr k (ui_get_open_nodes_query B node_type endCursor) of
        Inl e \<Rightarrow> Some (Inl e, Suc k)
      | Inr result \<Rightarrow>
          (case page_step node_type result all_nodes of
             Inl e \<Rightarrow> Some (Inl e, Suc k)
           | Inr (all_nodes', None) \<Rightarrow> Some (Inr all_nodes', Suc k)
           | Inr (all_nodes', Some c) \<Rightarrow>
               ui_get_nodes_loop B tr node_type all_nodes' c (Suc k)))"

text \<open>
  The state of a run of graal\_report.py: the number of requests made so far and the
  module-level dict \<^verbatim>\<open>_cached_results\<close>. The progress dots written to stdout are not
  modelled.
\<close>

record state =
  requests :: nat
  cached_results :: "(string \<times> nodeset) list"

text \<open>
  \<^verbatim>\<open>
  def get_nodes(node_type, node_info, states):
      key = node_type + node_info
      if key in _cached_results:
          return _cached_results[node_type]
      all_nodes = {}
      endCursor = None
      while True: ...
      _cached_results[key] = all_nodes
      return all_nodes
  \<close>
  On a hit the dict is subscripted with \<^verbatim>\<open>node_type\<close>, not with \<^verbatim>\<open>key\<close>.
\<close>

definition get_nodes ::
  "builtins \<Rightarrow> transport \<Rightarrow> string \<Rightarrow> string \<Rightarrow> string \<Rightarrow> state
     \<Rightarrow> ((error + nodeset) \<times> state) option" where
  "get_nodes B tr node_type node_info states s =
     (let key = node_type @ node_info in
      if map_of (cached_results s) key \<noteq> None then
        (case map_of (cached_results s) node_type of
           None \<Rightarrow> Some (Inl (KeyError node_type), s)
         | Some cached \<Rightarrow> Some (Inr cached, s))
      else
        (case get_nodes_loop B tr node_type node_info states [] JNull (requests s) of
           None \<Rightarrow> None
         | Some (Inl e, k) \<Rightarrow> Some (Inl e, s\<lparr>requests := k\<rparr>)
         | Some (Inr all_nodes, k) \<Rightarrow>
             Some (Inr all_nodes,
                   s\<lparr>requests := k,
                     cached_results := AList.update key all_nodes (cached_results s)\<rparr>)))"

text \<open>
  \<^verbatim>\<open>get_nodes\<close> of unassigned\_issues.py has no cache; its state is the request count.
\<close>

definition ui_get_nodes ::
  "builtins \<Rightarrow> transport \<Rightarrow> string \<Rightarrow> nat \<Rightarrow> ((error + nodeset) \<times> nat) option" where
  "ui_get_nodes B tr node_type k = ui_get_nodes_loop B tr node_type [] JNull k"


section \<open>Sorting the items of a NodeSet\<close>

text \<open>
  \<^verbatim>\<open>sorted(nodes.items(), reverse=...)\<close> compares the (key, node) tuples. The keys of a
  dict are pairwise different, so the order is decided by the keys alone and a node is
  never compared. Integers compare with integers and strings with strings; any other
  comparison raises \<^verbatim>\<open>TypeError\<close>, and with two items or more the sort must make one.
  With \<^verbatim>\<open>reverse=True\<close> the result is the reverse of the stable sort of the reversed list.
\<close>

fun is_int_key :: "json \<times> json \<Rightarrow> bool" where
  "is_int_key (JInt n, _) = True"
| "is_int_key _ = False"

fun is_str_key :: "json \<times> json \<Rightarrow> bool" where
  "is_str_key (JStr s, _) = True"
| "is_str_key _ = False"

fun int_key :: "json \<times> json \<Rightarrow> int" where
  "int_key (JInt n, _) = n"
| "int_key _ = 0"

fun str_key :: "json \<times> json \<Rightarrow> string" where
  "str_key (JStr s, _) = s"
| "str_key _ = []"

definition sort_items :: "bool \<Rightarrow> ('a \<Rightarrow> 'k::linorder) \<Rightarrow> 'a list \<Rightarrow> 'a list" where
  "sort_items reverse f xs = (if reverse then rev (sort_key f (rev xs)) else sort_key f xs)"

definition py_sorted_items :: "bool \<Rightarrow> nodeset \<Rightarrow> error + nodeset" where
  "py_sorted_items reverse items =
     (if length items \<le> 1 then Inr items
      else if list_all is_int_key items then Inr (sort_items reverse int_key items)
      else if list_all is_str_key items then Inr (sort_items reverse str_key items)
      else Inl TypeError)"

section \<open>The unassigned classifier\<close>

text \<open>
  The loop of \<^verbatim>\<open>show_unassigned_nodes\<close>, the same in both scripts:
  \<^verbatim>\<open>
  for _, node in sorted(...):
      num_assignees = int(node["assignees"]["totalCount"])
      if num_assignees == 0:
          print('{}: "{}"'.format(node["url"], node["title"]))
          total_unassigned += 1
  \<close>
  A printed line is the pair of the values formatted into it; the formatting itself
  belongs to the presentation layer. What had been printed before an exception is not
  kept.
\<close>

definition num_assignees :: "builtins \<Rightarrow> json \<Rightarrow> error + int" where
  "num_assignees B node =
     bindE (subscr node ''assignees'') (\<lambda>a.
     bindE (subscr a ''totalCount'') (\<lambda>c. py_int B c))"

definition node_line :: "json \<Rightarrow> error + (json \<times> json)" where
  "node_line node =
     bindE (subscr node ''url'') (\<lambda>url.
     bindE (subscr node ''title'') (\<lambda>title. Inr (url, title)))"

fun unassigned_loop ::
  "builtins \<Rightarrow> nodeset \<Rightarrow> (json \<times> json) list \<Rightarrow> nat \<Rightarrow> error + ((json \<times> json) list \<times> nat)" where
  "unassigned_loop B [] printed total_unassigned = Inr (printed, total_unassigned)"
| "unassigned_loop B (item # items) printed total_unassigned =
     (case num_assignees B (snd item) of
        Inl e \<Rightarrow> Inl e
      | Inr n \<Rightarrow>
          if n = 0 then
            (case node_line (snd item) of
               Inl e \<Rightarrow> Inl e
             | Inr l \<Rightarrow> unassigned_loop B items (printed @ [l]) (Suc total_unassigned))
          else unassigned_loop B items printed total_unassigned)"

text \<open>
  graal\_report.py: \<^verbatim>\<open>nodes = get_nodes(node_type, _node_info1, states='OPEN')\<close>, then the loop
  over \<^verbatim>\<open>sorted(nodes.items(), reverse=True)\<close>. The result is the printed node lines and the
  total of the last line.
\<close>

definition unassigned :: "builtins \<Rightarrow> nodeset \<Rightarrow> error + ((json \<times> json) list \<times> nat)" where
  "unassigned B nodes =
     bindE (py_sorted_items True nodes) (\<lambda>items. unassigned_loop B items [] 0)"

definition show_unassigned_nodes ::
  "builtins \<Rightarrow> transport \<Rightarrow> string \<Rightarrow> state
     \<Rightarrow> ((error + ((json \<times> json) list \<times> nat)) \<times> state) option" where
  "show_unassigned_nodes B tr node_type s =
     (case get_nodes B tr node_type node_info1 ''OPEN'' s of
        None \<Rightarrow> None
      | Some (Inl e, s') \<Rightarrow> Some (Inl e, s')
      | Some (Inr nodes, s') \<Rightarrow> Some (unassigned B nodes, s'))"

text \<open>unassigned\_issues.py: the loop runs over \<^verbatim>\<open>sorted(nodes.items())\<close>, ascending.\<close>

definition ui_unassigned :: "builtins \<Rightarrow> nodeset \<Rightarrow> error + ((json \<times> json) list \<times> nat)" where
  "ui_unassigned B nodes =
     bindE (py_sorted_items False nodes) (\<lambda>items. unassigned_loop B items [] 0)"


section \<open>The staleness classifier\<close>

text \<open>
  The body of the loop over the timeline edges in \<^verbatim>\<open>show_no_recent_activity_nodes\<close>:
  \<^verbatim>\<open>
  item = edge["node"]
  if item:
      author = item["author"]
      if author and author["organization"]:
          if last_oracle_comment is None:
              last_oracle_comment = (item["url"], parse_datetime(item["updatedAt"]))
          else:
              url, previous_updated_at = last_oracle_comment
              updated_at = parse_datetime(item["updatedAt"])
              if updated_at > previous_updated_at:
                  last_oracle_comment = (item["url"], updated_at)
  \<close>
\<close>

definition scan_edge ::
  "builtins \<Rightarrow> json \<Rightarrow> (json \<times> datetime) option \<Rightarrow> error + (json \<times> datetime) option" where
  "scan_edge B edge last_oracle_comment =
     bindE (subscr edge ''node'') (\<lambda>item.
       if truthy item then
         bindE (subscr item ''author'') (\<lambda>author.
         bindE (if truthy author
                then bindE (subscr author ''organization'') (\<lambda>org. Inr (truthy org))
                else Inr False) (\<lambda>authorized.
           if authorized then
             (case last_oracle_comment of
                None \<Rightarrow>
                  bindE (subscr item ''url'') (\<lambda>url.
                  bindE (subscr item ''updatedAt'') (\<lambda>u.
                  bindE (parse_datetime B u) (\<lambda>updated_at. Inr (Some (url, updated_at)))))
              | Some (url, previous_updated_at) \<Rightarrow>
                  bindE (subscr item ''updatedAt'') (\<lambda>u.
                  bindE (parse_datetime B u) (\<lambda>updated_at.
                  bindE (dt_gt updated_at previous_updated_at) (\<lambda>later.
                    if later
                    then bindE (subscr item ''url'') (\<lambda>url'. Inr (Some (url', updated_at)))
                    else Inr last_oracle_comment))))
           else Inr last_oracle_comment))
       else Inr last_oracle_comment)"

fun scan_timeline ::
  "builtins \<Rightarrow> json list \<Rightarrow> (json \<times> datetime) option \<Rightarrow> error + (json \<times> datetime) option" where
  "scan_timeline B [] last_oracle_comment = Inr last_oracle_comment"
| "scan_timeline B (edge # edges) last_oracle_comment =
     (case scan_edge B edge last_oracle_comment of
        Inl e \<Rightarrow> Inl e
      | Inr last' \<Rightarrow> scan_timeline B edges last')"

text \<open>
  A line of the staleness report: \<open>NoOracleComments url title\<close> is
  \<^verbatim>\<open>'{}: "{}" (no Oracle comments)'\<close>, \<open>Stale url title days comment_url\<close> is
  \<^verbatim>\<open>'{}: "{}" ({} days, {})'\<close>.
\<close>

datatype stale_line =
    NoOracleComments json json
  | Stale json json int json

text \<open>
  What one node contributes, for the current time \<open>now\<close> (a naive datetime, read once
  per report by \<^verbatim>\<open>datetime.datetime.now()\<close>):
  \<^verbatim>\<open>
  timeline = node["timelineItems"]
  last_oracle_comment = None
  for edge in timeline["edges"]: ...
  if not last_oracle_comment:
      print('{}: "{}" (no Oracle comments)'.format(node["url"], node["title"]))
  else:
      url, updated_at = last_oracle_comment
      delta = now - updated_at
      if delta.days > 30:
          print('{}: "{}" ({} days, {})'.format(node["url"], node["title"], delta.days, url))
  \<close>
\<close>

definition timeline_edges :: "json \<Rightarrow> error + json list" where
  "timeline_edges node =
     bindE (subscr node ''timelineItems'') (\<lambda>timeline.
     bindE (subscr timeline ''edges'') (\<lambda>edges. py_iter edges))"

definition last_oracle_comment_of :: "builtins \<Rightarrow> json \<Rightarrow> error + (json \<times> datetime) option" where
  "last_oracle_comment_of B node =
     bindE (timeline_edges node) (\<lambda>es. scan_timeline B es None)"

text \<open>
  What the loop body reads of a timeline edge: whether it passes the tests
  \<^verbatim>\<open>if item:\<close> and \<^verbatim>\<open>if author and author["organization"]:\<close> (a comment by a member of
  the organization), its \<^verbatim>\<open>updatedAt\<close> as a datetime, and its \<^verbatim>\<open>url\<close>.
\<close>

definition oracle_comment :: "json \<Rightarrow> bool" where
  "oracle_comment edge =
     (case subscr edge ''node'' of
        Inl _ \<Rightarrow> False
      | Inr item \<Rightarrow> truthy item \<and>
          (case subscr item ''author'' of
             Inl _ \<Rightarrow> False
           | Inr author \<Rightarrow> truthy author \<and>
               (case subscr author ''organization'' of
                  Inl _ \<Rightarrow> False
                | Inr org \<Rightarrow> truthy org)))"

definition comment_updated_at :: "builtins \<Rightarrow> json \<Rightarrow> error + datetime" where
  "comment_updated_at B edge =
     bindE (subscr edge ''node'') (\<lambda>item.
     bindE (subscr item ''updatedAt'') (\<lambda>u. parse_datetime B u))"

definition comment_url :: "json \<Rightarrow> error + json" where
  "comment_url edge = bindE (subscr edge ''node'') (\<lambda>item. subscr item ''url'')"

definition stale_node :: "builtins \<Rightarrow> datetime \<Rightarrow> json \<Rightarrow> error + stale_line option" where
  "stale_node B now node =
     bindE (last_oracle_comment_of B node) (\<lambda>last_oracle_comment.
       case last_oracle_comment of
         None \<Rightarrow>
           bindE (subscr node ''url'') (\<lambda>nurl.
           bindE (subscr node ''title'') (\<lambda>title. Inr (Some (NoOracleComments nurl title))))
       | Some (url, updated_at) \<Rightarrow>
           bindE (dt_sub_days now updated_at) (\<lambda>days.
             if days > 30 then
               bindE (subscr node ''url'') (\<lambda>nurl.
               bindE (subscr node ''title'') (\<lambda>title. Inr (Some (Stale nurl title days url))))
             else Inr None))"

fun stale_loop :: "builtins \<Rightarrow> datetime \<Rightarrow> nodeset \<Rightarrow> stale_line list \<Rightarrow> error + stale_line list" where
  "stale_loop B now [] printed = Inr printed"
| "stale_loop B now (item # items) printed =
     (case stale_node B now (snd item) of
        Inl e \<Rightarrow> Inl e
      | Inr None \<Rightarrow> stale_loop B now items printed
      | Inr (Some l) \<Rightarrow> stale_loop B now items (printed @ [l]))"

definition no_recent_activity :: "builtins \<Rightarrow> datetime \<Rightarrow> nodeset \<Rightarrow> error + stale_line list" where
  "no_recent_activity B now nodes =
     bindE (py_sorted_items True nodes) (\<lambda>items. stale_loop B now items [])"

definition show_no_recent_activity_nodes ::
  "builtins \<Rightarrow> transport \<Rightarrow> datetime \<Rightarrow> string \<Rightarrow> state
     \<Rightarrow> ((error + stale_line list) \<times> state) option" where
  "show_no_recent_activity_nodes B tr now node_type s =
     (case get_nodes B tr node_type node_info1 ''OPEN'' s of
        None \<Rightarrow> None
      | Some (Inl e, s') \<Rightarrow> Some (Inl e, s')
      | Some (Inr nodes, s') \<Rightarrow> Some (no_recent_activity B now nodes, s'))"

section \<open>The yearly aggregator\<close>

text \<open>
  \<^verbatim>\<open>[e["node"]["login"] for e in author["organizations"]["edges"]]\<close>: the list is built
  first, then \<^verbatim>\<open>frozenset\<close> hashes its elements.
\<close>

fun org_logins :: "json list \<Rightarrow> error + json list" where
  "org_logins [] = Inr []"
| "org_logins (e # es) =
     (case bindE (subscr e ''node'') (\<lambda>n. subscr n ''login'') of
        Inl err \<Rightarrow> Inl err
      | Inr l \<Rightarrow> (case org_logins es of Inl err \<Rightarrow> Inl err | Inr ls \<Rightarrow> Inr (l # ls)))"

fun frozenset :: "json list \<Rightarrow> error + json set" where
  "frozenset [] = Inr {}"
| "frozenset (x # xs) =
     (case dict_key x of
        Inl err \<Rightarrow> Inl err
      | Inr k \<Rightarrow> (case frozenset xs of Inl err \<Rightarrow> Inl err | Inr S \<Rightarrow> Inr (insert k S)))"

text \<open>
  The year and the label under which a node is counted, \<open>None\<close> for a node without
  author:
  \<^verbatim>\<open>
  author = node["author"]
  if author:
      created_at = parse_datetime(node["createdAt"])
      orgs = frozenset([e["node"]["login"] for e in author["organizations"]["edges"]])
      ... created_at.year ...
      key = "oracle" if "oracle" in orgs else "other"
  \<close>
\<close>

definition author_orgs :: "json \<Rightarrow> error + json set" where
  "author_orgs author =
     bindE (subscr author ''organizations'') (\<lambda>os.
     bindE (subscr os ''edges'') (\<lambda>edges.
     bindE (py_iter edges) (\<lambda>es.
     bindE (org_logins es) (\<lambda>ls. frozenset ls))))"

definition node_bucket :: "builtins \<Rightarrow> json \<Rightarrow> error + (int \<times> string) option" where
  "node_bucket B node =
     bindE (subscr node ''author'') (\<lambda>author.
       if truthy author then
         bindE (subscr node ''createdAt'') (\<lambda>c.
         bindE (parse_datetime B c) (\<lambda>created_at.
         bindE (author_orgs author) (\<lambda>orgs.
           Inr (Some (dt_year created_at,
                      if JStr ''oracle'' \<in> orgs then ''oracle'' else ''other'')))))
       else Inr None)"

text \<open>
  \<^verbatim>\<open>
  opened = opened_per_year.setdefault(created_at.year, {})
  opened[key] = opened.get(key, 0) + 1
  \<close>
  on the dict \<^verbatim>\<open>opened_per_year\<close>, kept in insertion order.
\<close>

type_synonym year_counts = "(int \<times> (string \<times> int) list) list"

definition count_opened :: "int \<Rightarrow> string \<Rightarrow> year_counts \<Rightarrow> year_counts" where
  "count_opened year key opened_per_year =
     (let opened = (case map_of opened_per_year year of None \<Rightarrow> [] | Some d \<Rightarrow> d);
          n = (case map_of opened key of None \<Rightarrow> 0 | Some c \<Rightarrow> c)
      in AList.update year (AList.update key (n + 1) opened) opened_per_year)"

fun yearly_loop :: "builtins \<Rightarrow> json list \<Rightarrow> year_counts \<Rightarrow> error + year_counts" where
  "yearly_loop B [] opened_per_year = Inr opened_per_year"
| "yearly_loop B (node # nodes) opened_per_year =
     (case node_bucket B node of
        Inl e \<Rightarrow> Inl e
      | Inr None \<Rightarrow> yearly_loop B nodes opened_per_year
      | Inr (Some (year, key)) \<Rightarrow> yearly_loop B nodes (count_opened year key opened_per_year))"

text \<open>
  \<^verbatim>\<open>for node in nodes.values()\<close>, then one printed line per year with the counts sorted by
  label: \<^verbatim>\<open>sorted(opened.items())\<close>.
\<close>

definition opened_per_year :: "builtins \<Rightarrow> nodeset \<Rightarrow> error + year_counts" where
  "opened_per_year B nodes = yearly_loop B (map snd nodes) []"


text \<open>
  Reading the result: \<^verbatim>\<open>opened_per_year[year][key]\<close>, with 0 where a key is absent, and
  whether the bucket is present at all.
\<close>

definition count_of :: "year_counts \<Rightarrow> int \<Rightarrow> string \<Rightarrow> int" where
  "count_of opy year key =
     (case map_of opy year of
        None \<Rightarrow> 0
      | Some opened \<Rightarrow> (case map_of opened key of None \<Rightarrow> 0 | Some c \<Rightarrow> c))"

definition has_bucket :: "year_counts \<Rightarrow> int \<Rightarrow> string \<Rightarrow> bool" where
  "has_bucket opy year key =
     (case map_of opy year of
        None \<Rightarrow> False
      | Some opened \<Rightarrow> map_of opened key \<noteq> None)"



section \<open>Synthetic inputs\<close>

text \<open>
  A page as the data model describes it: nodes, each with its integer \<open>number\<close> and its
  other fields, and the continuation marker. \<open>response_of_page\<close> is the parsed response
  carrying it, in the shape the scripts subscript: the connection sits under
  \<^verbatim>\<open>data.repositoryOwner.repository.<node_type>s\<close>.
\<close>

record page =
  page_nodes :: "(int \<times> (string \<times> json) list) list"
  has_next_page :: bool
  end_cursor :: json
  total_count :: int

definition node_json :: "int \<times> (string \<times> json) list \<Rightarrow> json" where
  "node_json n = JObj ((''number'', JInt (fst n)) # snd n)"

definition response_of_page :: "string \<Rightarrow> page \<Rightarrow> json" where
  "response_of_page node_type p =
     JObj [(''data'', JObj [(''repositoryOwner'', JObj [(''repository'', JObj [(node_type @ ''s'',
       JObj [(''totalCount'', JInt (total_count p)),
             (''pageInfo'', JObj [(''hasNextPage'', JBool (has_next_page p)),
                                  (''endCursor'', end_cursor p)]),
             (''edges'', JList (map (\<lambda>n. JObj [(''node'', node_json n)]) (page_nodes p)))])])])])]"

text \<open>
  The transport serves the pages \<open>ps\<close> in order from its \<open>k\<close>-th request on: the request
  that carries the query built by \<open>q\<close> for the cursor \<open>c\<close> gets the first page with status
  200, the next request, built for that page's \<open>endCursor\<close>, gets the second page, and so
  on. Nothing is said about any other request.
\<close>

fun serves :: "transport \<Rightarrow> (json \<Rightarrow> string) \<Rightarrow> string \<Rightarrow> nat \<Rightarrow> json \<Rightarrow> page list \<Rightarrow> bool" where
  "serves tr q node_type k c [] = True"
| "serves tr q node_type k c (p # ps) =
     (tr k (q c) = Inr (Response 200 (Inr (response_of_page node_type p)))
      \<and> serves tr q node_type (Suc k) (end_cursor p) ps)"

text \<open>The NodeSet that merging the nodes \<open>ns\<close>, in this order, into \<open>acc\<close> gives.\<close>

definition merge_nodes :: "(int \<times> (string \<times> json) list) list \<Rightarrow> nodeset \<Rightarrow> nodeset" where
  "merge_nodes ns acc = fold (\<lambda>n. AList.update (JInt (fst n)) (node_json n)) ns acc"

definition all_page_nodes :: "page list \<Rightarrow> (int \<times> (string \<times> json) list) list" where
  "all_page_nodes ps = concat (map page_nodes ps)"

subsection \<open>Example inputs\<close>

text \<open>
  Built-ins for the examples whose inputs need none of them, and a server that answers a
  query by the cursor it carries: the query built for the start cursor gets the first
  page, the query built for a page's \<open>endCursor\<close> gets the page after it, any other
  query is refused with status 400.
\<close>

definition B0 :: builtins where
  "B0 = \<lparr>str_of = (\<lambda>_. ''?''), int_of_str = (\<lambda>_. None), fromisoformat = (\<lambda>_. None)\<rparr>"

fun serve_pages :: "(json \<Rightarrow> string) \<Rightarrow> string \<Rightarrow> json \<Rightarrow> page list \<Rightarrow> string \<Rightarrow> error + response" where
  "serve_pages q node_type c [] query = Inr (Response 400 (Inl ValueError))"
| "serve_pages q node_type c (p # ps) query =
     (if query = q c then Inr (Response 200 (Inr (response_of_page node_type p)))
      else serve_pages q node_type (end_cursor p) ps query)"

text \<open>Three pages of issues with \<open>hasNextPage\<close> true, true, false.\<close>

definition page1 :: page where
  "page1 = \<lparr>page_nodes = [(1, [(''title'', JStr ''a'')]), (2, [(''title'', JStr ''b'')])],
            has_next_page = True, end_cursor = JStr ''c1'', total_count = 4\<rparr>"

definition page2 :: page where
  "page2 = \<lparr>page_nodes = [(3, [(''title'', JStr ''c'')])],
            has_next_page = True, end_cursor = JStr ''c2'', total_count = 4\<rparr>"

definition page3 :: page where
  "page3 = \<lparr>page_nodes = [(4, [(''title'', JStr ''d'')])],
            has_next_page = False, end_cursor = JNull, total_count = 4\<rparr>"

definition issue_server :: transport where
  "issue_server = (\<lambda>k. serve_pages (get_open_nodes_query B0 ''issue'' node_info1 ''OPEN'') ''issue'' JNull [page1, page2, page3])"

text \<open>A last page that repeats number 2 of \<open>page1\<close> with another title.\<close>

definition page2_again :: page where
  "page2_again = \<lparr>page_nodes = [(2, [(''title'', JStr ''b, edited'')]), (3, [(''title'', JStr ''c'')])],
            has_next_page = False, end_cursor = JNull, total_count = 3\<rparr>"

definition empty_page :: page where
  "empty_page = \<lparr>page_nodes = [], has_next_page = False, end_cursor = JNull, total_count = 0\<rparr>"

definition pr_server :: transport where
  "pr_server = (\<lambda>k. serve_pages (get_open_nodes_query B0 ''pullRequest'' node_info1 ''OPEN'')
                       ''pullRequest'' JNull [page1, page2_again])"

definition ui_pr_server :: transport where
  "ui_pr_server = (\<lambda>k. serve_pages (ui_get_open_nodes_query B0 ''pullRequest'') ''pullRequest'' JNull
                       [page1, page2_again])"

definition empty_server :: transport where
  "empty_server = (\<lambda>k query. Inr (Response 200 (Inr (response_of_page ''issue'' empty_page))))"

definition state0 :: state where
  "state0 = \<lparr>requests = 0, cached_results = []\<rparr>"

text \<open>
  A node as \<^verbatim>\<open>_node_info1\<close> selects it, with the edges of its timeline, and three such
  nodes with 0, 1 and 0 assignees.
\<close>

definition issue_node :: "int \<Rightarrow> string \<Rightarrow> string \<Rightarrow> int \<Rightarrow> json list \<Rightarrow> json" where
  "issue_node number url title assignee_count timeline =
     JObj [(''number'', JInt number), (''url'', JStr url), (''title'', JStr title),
           (''assignees'', JObj [(''totalCount'', JInt assignee_count)]),
           (''timelineItems'', JObj [(''edges'', JList timeline)])]"

definition three_nodes :: nodeset where
  "three_nodes =
     [(JInt 5, issue_node 5 ''u5'' ''five'' 0 []),
      (JInt 7, issue_node 7 ''u7'' ''seven'' 1 []),
      (JInt 9, issue_node 9 ''u9'' ''nine'' 0 [])]"

text \<open>
  A stand-in for \<^verbatim>\<open>datetime.fromisoformat\<close> on the one format the API sends once the
  \<^verbatim>\<open>Z\<close> is cut off, \<^verbatim>\<open>YYYY-MM-DDTHH:MM:SS\<close>; the ordinal of a date is computed as Python's
  \<^verbatim>\<open>_ymd2ord\<close> does.
\<close>

definition is_leap :: "int \<Rightarrow> bool" where
  "is_leap y = (y mod 4 = 0 \<and> (y mod 100 \<noteq> 0 \<or> y mod 400 = 0))"

definition days_in_month :: "int \<Rightarrow> int \<Rightarrow> int" where
  "days_in_month y m =
     (if m = 2 then (if is_leap y then 29 else 28)
      else if m = 4 \<or> m = 6 \<or> m = 9 \<or> m = 11 then 30 else 31)"

definition days_before_year :: "int \<Rightarrow> int" where
  "days_before_year y = (let y1 = y - 1 in y1 * 365 + y1 div 4 - y1 div 100 + y1 div 400)"

definition days_before_month :: "int \<Rightarrow> int \<Rightarrow> int" where
  "days_before_month y m = sum_list (map (days_in_month y) [1..m - 1])"

definition ymd2ord :: "int \<Rightarrow> int \<Rightarrow> int \<Rightarrow> int" where
  "ymd2ord y m d = days_before_year y + days_before_month y m + d"

definition naive_datetime :: "int \<Rightarrow> int \<Rightarrow> int \<Rightarrow> int \<Rightarrow> int \<Rightarrow> int \<Rightarrow> datetime" where
  "naive_datetime y m d hh mm ss =
     \<lparr>wall = ((ymd2ord y m d - 1) * 86400 + hh * 3600 + mm * 60 + ss) * 1000000,
      utcoffset = None\<rparr>"

definition digit :: "char \<Rightarrow> int option" where
  "digit c = (if CHR ''0'' \<le> c \<and> c \<le> CHR ''9'' then Some (of_char c - 48) else None)"

fun digits :: "string \<Rightarrow> int \<Rightarrow> int option" where
  "digits [] acc = Some acc"
| "digits (c # cs) acc = (case digit c of None \<Rightarrow> None | Some v \<Rightarrow> digits cs (10 * acc + v))"

definition iso_seconds :: "string \<Rightarrow> datetime option" where
  "iso_seconds s =
     (if length s = 19 \<and> s ! 4 = CHR ''-'' \<and> s ! 7 = CHR ''-'' \<and> s ! 10 = CHR ''T''
         \<and> s ! 13 = CHR '':'' \<and> s ! 16 = CHR '':''
      then
        (case (digits (take 4 s) 0, digits (take 2 (drop 5 s)) 0, digits (take 2 (drop 8 s)) 0,
               digits (take 2 (drop 11 s)) 0, digits (take 2 (drop 14 s)) 0,
               digits (take 2 (drop 17 s)) 0) of
           (Some y, Some m, Some d, Some hh, Some mm, Some ss) \<Rightarrow>
             if 1 \<le> y \<and> 1 \<le> m \<and> m \<le> 12 \<and> 1 \<le> d \<and> d \<le> days_in_month y m
                \<and> hh < 24 \<and> mm < 60 \<and> ss < 60
             then Some (naive_datetime y m d hh mm ss) else None
         | _ \<Rightarrow> None)
      else None)"

definition B_iso :: builtins where
  "B_iso = \<lparr>str_of = (\<lambda>_. ''?''), int_of_str = (\<lambda>_. None), fromisoformat = iso_seconds\<rparr>"

text \<open>
  A comment edge of a timeline, and the author of a comment: a login with the value the
  API gave for \<^verbatim>\<open>organization(login: "oracle")\<close>, the organization for a member and
  \<open>None\<close> for anybody else.
\<close>

definition comment_edge :: "string \<Rightarrow> string \<Rightarrow> json \<Rightarrow> json" where
  "comment_edge url updated_at author =
     JObj [(''node'', JObj [(''updatedAt'', JStr updated_at), (''url'', JStr url),
                            (''author'', author)])]"

definition oracle_author :: "string \<Rightarrow> json" where
  "oracle_author login =
     JObj [(''organization'', JObj [(''login'', JStr ''oracle'')]), (''login'', JStr login)]"

definition other_author :: "string \<Rightarrow> json" where
  "other_author login = JObj [(''organization'', JNull), (''login'', JStr login)]"

text \<open>
  A timeline with two comments by members updated at the same second, an older one by a
  member, a newer one by somebody else, and an event that is not a comment.
\<close>

definition tied_timeline :: "json list" where
  "tied_timeline =
     [comment_edge ''c1'' ''2024-01-10T08:00:00Z'' (oracle_author ''ann''),
      JObj [(''node'', JObj [])],
      comment_edge ''c2'' ''2024-02-01T12:00:00Z'' (oracle_author ''bob''),
      comment_edge ''c3'' ''2024-02-01T12:00:00Z'' (oracle_author ''ann''),
      comment_edge ''c4'' ''2024-03-05T09:30:00Z'' (other_author ''eve'')]"

text \<open>
  Three nodes seen on 2024-03-20 at noon: one without any timeline entry, one whose only
  comment by a member is 5 days old, one whose only comment by a member is 45 days old.
\<close>

definition noon_2024_03_20 :: datetime where
  "noon_2024_03_20 = naive_datetime 2024 3 20 12 0 0"

definition silent_node :: json where
  "silent_node = issue_node 11 ''u11'' ''silent'' 0 []"

definition fresh_node :: json where
  "fresh_node = issue_node 12 ''u12'' ''fresh'' 0
     [comment_edge ''c12'' ''2024-03-15T11:00:00Z'' (oracle_author ''ann'')]"

definition stale_issue :: json where
  "stale_issue = issue_node 13 ''u13'' ''stale'' 0
     [comment_edge ''c13'' ''2024-02-04T11:00:00Z'' (oracle_author ''bob''),
      comment_edge ''c14'' ''2024-03-19T11:00:00Z'' (other_author ''eve'')]"

definition stale_nodes :: nodeset where
  "stale_nodes = [(JInt 11, silent_node), (JInt 12, fresh_node), (JInt 13, stale_issue)]"

text \<open>
  A node as \<^verbatim>\<open>_node_info2\<close> selects it: the author is \<open>None\<close> or a user with the logins
  of the organizations the API returned for \<^verbatim>\<open>organizations(first:5)\<close>.
\<close>

definition org_edge :: "string \<Rightarrow> json" where
  "org_edge login = JObj [(''node'', JObj [(''login'', JStr login)])]"

definition user_author :: "string \<Rightarrow> string list \<Rightarrow> json" where
  "user_author login orgs =
     JObj [(''login'', JStr login),
           (''organizations'', JObj [(''edges'', JList (map org_edge orgs))])]"

definition year_node :: "int \<Rightarrow> string \<Rightarrow> json \<Rightarrow> json" where
  "year_node number created_at author =
     JObj [(''number'', JInt number), (''author'', author),
           (''createdAt'', JStr created_at), (''closedAt'', JNull)]"

text \<open>
  Three nodes created in 2021, two by members of the organization and one by somebody
  else, and one node created in 2022 by somebody else; then the same with a fifth node
  whose author is \<open>None\<close>.
\<close>

definition four_nodes :: nodeset where
  "four_nodes =
     [(JInt 1, year_node 1 ''2021-02-03T04:05:06Z'' (user_author ''ann'' [''graalvm'', ''oracle''])),
      (JInt 2, year_node 2 ''2021-12-31T23:59:59Z'' (user_author ''bob'' [''oracle''])),
      (JInt 3, year_node 3 ''2021-01-01T00:00:00Z'' (user_author ''eve'' [])),
      (JInt 4, year_node 4 ''2022-01-01T00:00:00Z'' (user_author ''dan'' [''apache'']))]"

definition five_nodes :: nodeset where
  "five_nodes = four_nodes @ [(JInt 5, year_node 5 ''2022-06-01T00:00:00Z'' JNull)]"

text \<open>
  A node whose author is not a user: the fragment \<^verbatim>\<open>... on User\<close> of \<^verbatim>\<open>_node_info2\<close>
  selects nothing for it, so the author is an empty object.
\<close>

definition bot_node :: json where
  "bot_node = year_node 6 ''2021-03-04T05:06:07Z'' (JObj [])"

text \<open>A user in six organizations, the organization of interest being the sixth.\<close>

definition six_memberships :: "string list" where
  "six_memberships = [''a'', ''b'', ''c'', ''d'', ''e'', ''oracle'']"








text \<open>
  The author of a comment who is not a user (a bot): the fragment \<^verbatim>\<open>... on User\<close> of
  \<^verbatim>\<open>_node_info1\<close> selects nothing for it, so the author has its \<open>login\<close> and no key
  \<open>organization\<close>. One node has a comment by a member and then a comment by a bot, one
  node has a comment by a bot only.
\<close>

definition bot_author :: "string \<Rightarrow> json" where
  "bot_author login = JObj [(''login'', JStr login)]"

definition bot_commented_node :: json where
  "bot_commented_node = issue_node 14 ''u14'' ''bumped'' 0
     [comment_edge ''c15'' ''2024-03-01T10:00:00Z'' (oracle_author ''ann''),
      comment_edge ''c16'' ''2024-03-02T10:00:00Z'' (bot_author ''dependabot'')]"

definition bot_only_node :: json where
  "bot_only_node = issue_node 15 ''u15'' ''robot'' 0
     [comment_edge ''c17'' ''2024-03-02T10:00:00Z'' (bot_author ''dependabot'')]"

section \<open>Properties of the paginator and the cache\<close>

lemma bindE_Inr [simp]: "bindE (Inr x) f = f x"
  by (simp add: bindE_def)

lemma bindE_Inl [simp]: "bindE (Inl e) f = Inl e"
  by (simp add: bindE_def)

subsection \<open>One round of the loop\<close>



lemma get_nodes_loop_break:
  assumes "run_query tr k (get_open_nodes_query B node_type node_info states c) = Inr result"
    and "page_step node_type result acc = Inr (acc', None)"
  shows "get_nodes_loop B tr node_type node_info states acc c k = Some (Inr acc', Suc k)"
  by (subst get_nodes_loop.simps) (simp add: assms except_KeyError_def)

lemma get_nodes_loop_continue:
  assumes "run_query tr k (get_open_nodes_query B node_type node_info states c) = Inr result"
    and "page_step node_type result acc = Inr (acc', Some c')"
  shows "get_nodes_loop B tr node_type node_info states acc c k =
         get_nodes_loop B tr node_type node_info states acc' c' (Suc k)"
  by (subst get_nodes_loop.simps) (simp add: assms except_KeyError_def)

lemma merge_edges_nodes:
  "merge_edges (map (\<lambda>n. JObj [(''node'', node_json n)]) ns) acc = Inr (merge_nodes ns acc)"
  by (induction ns arbitrary: acc) (simp_all add: merge_nodes_def node_json_def)

lemma page_step_page:
  "page_step node_type (response_of_page node_type p) acc =
     Inr (merge_nodes (page_nodes p) acc, if has_next_page p then Some (end_cursor p) else None)"
  by (simp add: page_step_def response_of_page_def merge_edges_nodes)

lemma run_query_ok:
  "tr k q = Inr (Response 200 (Inr j)) \<Longrightarrow> run_query tr k q = Inr j"
  by (simp add: run_query_def)

lemma merge_nodes_append: "merge_nodes (xs @ ys) acc = merge_nodes ys (merge_nodes xs acc)"
  by (simp add: merge_nodes_def)

lemma get_nodes_loop_pages:
  assumes "serves tr (get_open_nodes_query B node_type node_info states) node_type k c ps"
    and "ps \<noteq> []" and "\<forall>p\<in>set (butlast ps). has_next_page p" and "\<not> has_next_page (last ps)"
  shows "get_nodes_loop B tr node_type node_info states acc c k =
           Some (Inr (merge_nodes (all_page_nodes ps) acc), k + length ps)"
  using assms
proof (induction ps arbitrary: k c acc)
  case Nil
  then show ?case by simp
next
  case (Cons p ps)
  from Cons.prems(1) have rq: "run_query tr k (get_open_nodes_query B node_type node_info states c)
      = Inr (response_of_page node_type p)"
    by (simp add: run_query_ok)
  show ?case
  proof (cases "ps = []")
    case True
    with Cons.prems have "\<not> has_next_page p" by simp
    then show ?thesis using True
      by (simp add: get_nodes_loop_break [OF rq] page_step_page all_page_nodes_def merge_nodes_def)
  next
    case False
    with Cons.prems have h: "has_next_page p" by simp
    have "get_nodes_loop B tr node_type node_info states acc c k =
          get_nodes_loop B tr node_type node_info states (merge_nodes (page_nodes p) acc) (end_cursor p) (Suc k)"
      by (rule get_nodes_loop_continue [OF rq]) (simp add: page_step_page h)
    also have "\<dots> = Some (Inr (merge_nodes (all_page_nodes ps) (merge_nodes (page_nodes p) acc)), Suc k + length ps)"
      using Cons.prems False by (intro Cons.IH) auto
    finally show ?thesis
      by (simp add: all_page_nodes_def merge_nodes_append)
  qed
qed

lemma ui_run_query_ok:
  "tr k q = Inr (Response 200 (Inr j)) \<Longrightarrow> ui_run_query tr k q = Inr j"
  by (simp add: ui_run_query_def)

lemma ui_get_nodes_loop_break:
  assumes "ui_run_query tr k (ui_get_open_nodes_query B node_type c) = Inr result"
    and "page_step node_type result acc = Inr (acc', None)"
  shows "ui_get_nodes_loop B tr node_type acc c k = Some (Inr acc', Suc k)"
  by (subst ui_get_nodes_loop.simps) (simp add: assms)

lemma ui_get_nodes_loop_continue:
  assumes "ui_run_query tr k (ui_get_open_nodes_query B node_type c) = Inr result"
    and "page_step node_type result acc = Inr (acc', Some c')"
  shows "ui_get_nodes_loop B tr node_type acc c k = ui_get_nodes_loop B tr node_type acc' c' (Suc k)"
  by (subst ui_get_nodes_loop.simps) (simp add: assms)

lemma ui_get_nodes_loop_pages:
  assumes "serves tr (ui_get_open_nodes_query B node_type) node_type k c ps"
    and "ps \<noteq> []" and "\<forall>p\<in>set (butlast ps). has_next_page p" and "\<not> has_next_page (last ps)"
  shows "ui_get_nodes_loop B tr node_type acc c k =
           Some (Inr (merge_nodes (all_page_nodes ps) acc), k + length ps)"
  using assms
proof (induction ps arbitrary: k c acc)
  case Nil
  then show ?case by simp
next
  case (Cons p ps)
  from Cons.prems(1) have rq: "ui_run_query tr k (ui_get_open_nodes_query B node_type c)
      = Inr (response_of_page node_type p)"
    by (simp add: ui_run_query_ok)
  show ?case
  proof (cases "ps = []")
    case True
    with Cons.prems have "\<not> has_next_page p" by simp
    then show ?thesis using True
      by (simp add: ui_get_nodes_loop_break [OF rq] page_step_page all_page_nodes_def merge_nodes_def)
  next
    case False
    with Cons.prems have h: "has_next_page p" by simp
    have "ui_get_nodes_loop B tr node_type acc c k =
          ui_get_nodes_loop B tr node_type (merge_nodes (page_nodes p) acc) (end_cursor p) (Suc k)"
      by (rule ui_get_nodes_loop_continue [OF rq]) (simp add: page_step_page h)
    also have "\<dots> = Some (Inr (merge_nodes (all_page_nodes ps) (merge_nodes (page_nodes p) acc)), Suc k + length ps)"
      using Cons.prems False by (intro Cons.IH) auto
    finally show ?thesis
      by (simp add: all_page_nodes_def merge_nodes_append)
  qed
qed

lemma get_nodes_pages:
  assumes "map_of (cached_results s) (node_type @ node_info) = None"
    and "serves tr (get_open_nodes_query B node_type node_info states) node_type (requests s) JNull ps"
    and "ps \<noteq> []" and "\<forall>p\<in>set (butlast ps). has_next_page p" and "\<not> has_next_page (last ps)"
  shows "get_nodes B tr node_type node_info states s =
           Some (Inr (merge_nodes (all_page_nodes ps) []),
                 s\<lparr>requests := requests s + length ps,
                   cached_results := AList.update (node_type @ node_info)
                      (merge_nodes (all_page_nodes ps) []) (cached_results s)\<rparr>)"
  by (simp add: get_nodes_def assms(1) get_nodes_loop_pages [OF assms(2-5)])

lemma merge_nodes_keys:
  "fst ` set (merge_nodes ns acc) = fst ` set acc \<union> (\<lambda>n. JInt (fst n)) ` set ns"
  by (induction ns arbitrary: acc) (auto simp: merge_nodes_def dom_update)

lemma merge_nodes_distinct:
  "distinct (map fst acc) \<Longrightarrow> distinct (map fst (merge_nodes ns acc))"
  by (induction ns arbitrary: acc) (simp_all add: merge_nodes_def distinct_update)

lemma update_fresh:
  "k \<notin> fst ` set al \<Longrightarrow> AList.update k v al = al @ [(k, v)]"
  by (induction al) auto

lemma merge_nodes_fresh:
  "distinct (map fst ns) \<Longrightarrow> (\<lambda>n. JInt (fst n)) ` set ns \<inter> fst ` set acc = {} \<Longrightarrow>
   merge_nodes ns acc = acc @ map (\<lambda>n. (JInt (fst n), node_json n)) ns"
proof (induction ns arbitrary: acc)
  case Nil
  then show ?case by (simp add: merge_nodes_def)
next
  case (Cons n ns)
  have fresh: "JInt (fst n) \<notin> fst ` set acc" using Cons.prems(2) by auto
  have "merge_nodes (n # ns) acc = merge_nodes ns (acc @ [(JInt (fst n), node_json n)])"
    by (simp add: merge_nodes_def update_fresh [OF fresh])
  also have "\<dots> = (acc @ [(JInt (fst n), node_json n)]) @ map (\<lambda>n. (JInt (fst n), node_json n)) ns"
    using Cons.prems by (intro Cons.IH) (auto simp: image_iff)
  finally show ?case by simp
qed

lemma merge_nodes_values:
  "snd ` set (merge_nodes ns acc) \<subseteq> snd ` set acc \<union> node_json ` set ns"
proof (induction ns arbitrary: acc)
  case Nil
  then show ?case by (simp add: merge_nodes_def)
next
  case (Cons n ns)
  have "set (AList.update k v al) \<subseteq> insert (k, v) (set al)" for k and v :: json and al :: nodeset
    by (induction al) auto
  then have "snd ` set (AList.update (JInt (fst n)) (node_json n) acc) \<subseteq> insert (node_json n) (snd ` set acc)"
    by force
  with Cons.IH [of "AList.update (JInt (fst n)) (node_json n) acc"] show ?case
    by (auto simp: merge_nodes_def)
qed

lemma merge_nodes_lookup:
  "map_of (merge_nodes ns acc) k =
     (case map_of (rev (map (\<lambda>n. (JInt (fst n), node_json n)) ns)) k of
        Some v \<Rightarrow> Some v | None \<Rightarrow> map_of acc k)"
  by (induction ns arbitrary: acc)
     (auto simp: merge_nodes_def update_conv' map_add_def split: option.splits)

lemma merge_nodes_last_wins:
  assumes "i < length ns" and "\<forall>j. i < j \<and> j < length ns \<longrightarrow> fst (ns ! j) \<noteq> fst (ns ! i)"
  shows "map_of (merge_nodes ns acc) (JInt (fst (ns ! i))) = Some (node_json (ns ! i))"
  using assms
proof (induction ns arbitrary: acc i)
  case Nil
  then show ?case by simp
next
  case (Cons n ns)
  show ?case
  proof (cases i)
    case 0
    have "JInt (fst n) \<notin> (\<lambda>n. JInt (fst n)) ` set ns"
    proof
      assume "JInt (fst n) \<in> (\<lambda>n. JInt (fst n)) ` set ns"
      then obtain m where "m \<in> set ns" "fst m = fst n" by auto
      then obtain j where "j < length ns" "ns ! j = m" by (auto simp: in_set_conv_nth)
      with Cons.prems(2) [rule_format, of "Suc j"] 0 \<open>fst m = fst n\<close> show False by simp
    qed
    then have "map_of (rev (map (\<lambda>n. (JInt (fst n), node_json n)) ns)) (JInt (fst n)) = None"
      by (simp add: map_of_eq_None_iff image_image)
    then show ?thesis using 0
      by (simp add: merge_nodes_lookup update_conv' merge_nodes_def [of "n # ns"] merge_nodes_def [symmetric, of ns])
  next
    case (Suc i')
    have "map_of (merge_nodes ns (AList.update (JInt (fst n)) (node_json n) acc)) (JInt (fst (ns ! i'))) =
          Some (node_json (ns ! i'))"
    proof (rule Cons.IH)
      show "i' < length ns" using Cons.prems(1) Suc by simp
      show "\<forall>j. i' < j \<and> j < length ns \<longrightarrow> fst (ns ! j) \<noteq> fst (ns ! i')"
        using Cons.prems(2) [rule_format, of "Suc j" for j] Suc by auto
    qed
    then show ?thesis using Suc by (simp add: merge_nodes_def)
  qed
qed

text \<open>
  Claim C1 says that a second call of \<^verbatim>\<open>get_nodes\<close> with the same node kind and field
  selection makes no request and returns the NodeSet stored by the first call. The second
  call indeed makes no request, but it subscripts \<^verbatim>\<open>_cached_results\<close> with \<^verbatim>\<open>node_type\<close>
  while the NodeSet was stored under \<^verbatim>\<open>node_type + node_info\<close>: after a first call that
  fetched one empty page of issues, the second call raises \<^verbatim>\<open>KeyError('issue')\<close>. So
  does the report of the unassigned issues when it runs after the report of the stale
  issues, as it does in the script: both ask for the issues with \<^verbatim>\<open>_node_info1\<close>.
\<close>

theorem get_nodes_second_call_raises:
  "get_nodes B0 empty_server ''issue'' node_info1 ''OPEN'' state0 =
     Some (Inr [], \<lparr>requests = 1, cached_results = [(''issue'' @ node_info1, [])]\<rparr>)
   \<and> get_nodes B0 empty_server ''issue'' node_info1 ''OPEN''
         \<lparr>requests = 1, cached_results = [(''issue'' @ node_info1, [])]\<rparr> =
     Some (Inl (KeyError ''issue''), \<lparr>requests = 1, cached_results = [(''issue'' @ node_info1, [])]\<rparr>)
   \<and> show_no_recent_activity_nodes B0 empty_server noon_2024_03_20 ''issue'' state0 =
     Some (Inr [], \<lparr>requests = 1, cached_results = [(''issue'' @ node_info1, [])]\<rparr>)
   \<and> show_unassigned_nodes B0 empty_server ''issue''
         \<lparr>requests = 1, cached_results = [(''issue'' @ node_info1, [])]\<rparr> =
     Some (Inl (KeyError ''issue''), \<lparr>requests = 1, cached_results = [(''issue'' @ node_info1, [])]\<rparr>)"
proof -
  let ?s1 = "\<lparr>requests = 1, cached_results = [(''issue'' @ node_info1, [])]\<rparr>"
  have "serves empty_server (get_open_nodes_query B0 ''issue'' node_info1 ''OPEN'') ''issue''
          (requests state0) JNull [empty_page]"
    by (simp add: empty_server_def)
  then have first: "get_nodes B0 empty_server ''issue'' node_info1 ''OPEN'' state0 = Some (Inr [], ?s1)"
    by (subst get_nodes_pages [where ps = "[empty_page]"])
       (simp_all add: state0_def empty_page_def all_page_nodes_def merge_nodes_def)
  have second: "get_nodes B0 empty_server ''issue'' node_info1 ''OPEN'' ?s1 =
      Some (Inl (KeyError ''issue''), ?s1)"
    by (simp add: get_nodes_def node_info1_def nl_def)
  have stale: "show_no_recent_activity_nodes B0 empty_server noon_2024_03_20 ''issue'' state0 =
      Some (Inr [], ?s1)"
    unfolding show_no_recent_activity_nodes_def first
    by (simp add: no_recent_activity_def py_sorted_items_def)
  have unassigned: "show_unassigned_nodes B0 empty_server ''issue'' ?s1 =
      Some (Inl (KeyError ''issue''), ?s1)"
    unfolding show_unassigned_nodes_def second by simp
  show ?thesis
    by (intro conjI) (rule first second stale unassigned)+
qed

lemma get_nodes_hit:
  assumes "map_of (cached_results s) (node_type @ node_info) \<noteq> None"
  shows "get_nodes B tr node_type node_info states s =
           (case map_of (cached_results s) node_type of
              None \<Rightarrow> Some (Inl (KeyError node_type), s)
            | Some cached \<Rightarrow> Some (Inr cached, s))"
  using assms by (simp add: get_nodes_def)

text \<open>
  Claim C2: when the transport serves pages whose \<open>hasNextPage\<close> is true for all but the
  last, the paginator of either script makes exactly one request per page, each built
  for the \<open>endCursor\<close> of the page before, stops at the page whose \<open>hasNextPage\<close> is false,
  and returns the merge of the nodes of all these pages: its keys are the numbers of all
  the nodes, its values are fetched nodes, with pairwise different numbers it has one
  entry per node in fetch order, and pages without nodes (a single empty page) give the
  empty NodeSet. \<^verbatim>\<open>get_nodes\<close> of graal\_report.py, called with nothing cached for the key,
  also stores the result under the key.
\<close>

theorem pagination_complete:
  assumes "ps \<noteq> []" and "\<forall>p\<in>set (butlast ps). has_next_page p" and "\<not> has_next_page (last ps)"
  shows "(map_of (cached_results s) (node_type @ node_info) = None
          \<and> serves tr (get_open_nodes_query B node_type node_info states) node_type (requests s) JNull ps
          \<longrightarrow> get_nodes B tr node_type node_info states s =
                Some (Inr (merge_nodes (all_page_nodes ps) []),
                      s\<lparr>requests := requests s + length ps,
                        cached_results := AList.update (node_type @ node_info)
                          (merge_nodes (all_page_nodes ps) []) (cached_results s)\<rparr>))
       \<and> (serves tr (ui_get_open_nodes_query B node_type) node_type k JNull ps
          \<longrightarrow> ui_get_nodes B tr node_type k =
                Some (Inr (merge_nodes (all_page_nodes ps) []), k + length ps))
       \<and> fst ` set (merge_nodes (all_page_nodes ps) []) = (\<lambda>n. JInt (fst n)) ` set (all_page_nodes ps)
       \<and> snd ` set (merge_nodes (all_page_nodes ps) []) \<subseteq> node_json ` set (all_page_nodes ps)
       \<and> (distinct (map fst (all_page_nodes ps))
          \<longrightarrow> merge_nodes (all_page_nodes ps) [] =
                map (\<lambda>n. (JInt (fst n), node_json n)) (all_page_nodes ps)
              \<and> length (merge_nodes (all_page_nodes ps) []) = length (all_page_nodes ps))
       \<and> (all_page_nodes ps = [] \<longrightarrow> merge_nodes (all_page_nodes ps) [] = [])"
proof (intro conjI impI)
  assume "map_of (cached_results s) (node_type @ node_info) = None
          \<and> serves tr (get_open_nodes_query B node_type node_info states) node_type (requests s) JNull ps"
  then show "get_nodes B tr node_type node_info states s =
                Some (Inr (merge_nodes (all_page_nodes ps) []),
                      s\<lparr>requests := requests s + length ps,
                        cached_results := AList.update (node_type @ node_info)
                          (merge_nodes (all_page_nodes ps) []) (cached_results s)\<rparr>)"
    using assms by (intro get_nodes_pages) auto
next
  assume "serves tr (ui_get_open_nodes_query B node_type) node_type k JNull ps"
  then show "ui_get_nodes B tr node_type k = Some (Inr (merge_nodes (all_page_nodes ps) []), k + length ps)"
    unfolding ui_get_nodes_def using assms by (intro ui_get_nodes_loop_pages) auto
next
  show "fst ` set (merge_nodes (all_page_nodes ps) []) = (\<lambda>n. JInt (fst n)) ` set (all_page_nodes ps)"
    by (simp add: merge_nodes_keys)
next
  show "snd ` set (merge_nodes (all_page_nodes ps) []) \<subseteq> node_json ` set (all_page_nodes ps)"
    using merge_nodes_values [of "all_page_nodes ps" "[]"] by simp
next
  assume d: "distinct (map fst (all_page_nodes ps))"
  then show eq: "merge_nodes (all_page_nodes ps) [] =
                map (\<lambda>n. (JInt (fst n), node_json n)) (all_page_nodes ps)"
    using merge_nodes_fresh [of "all_page_nodes ps" "[]"] by simp
  show "length (merge_nodes (all_page_nodes ps) []) = length (all_page_nodes ps)"
    by (simp add: eq)
next
  assume "all_page_nodes ps = []"
  then show "merge_nodes (all_page_nodes ps) [] = []"
    by (simp add: merge_nodes_def)
qed

theorem pagination_complete_witness:
  "get_nodes B0 issue_server ''issue'' node_info1 ''OPEN'' state0 =
     Some (Inr [(JInt 1, JObj [(''number'', JInt 1), (''title'', JStr ''a'')]),
                (JInt 2, JObj [(''number'', JInt 2), (''title'', JStr ''b'')]),
                (JInt 3, JObj [(''number'', JInt 3), (''title'', JStr ''c'')]),
                (JInt 4, JObj [(''number'', JInt 4), (''title'', JStr ''d'')])],
           \<lparr>requests = 3,
              cached_results =
                [(''issue'' @ node_info1,
                  [(JInt 1, JObj [(''number'', JInt 1), (''title'', JStr ''a'')]),
                   (JInt 2, JObj [(''number'', JInt 2), (''title'', JStr ''b'')]),
                   (JInt 3, JObj [(''number'', JInt 3), (''title'', JStr ''c'')]),
                   (JInt 4, JObj [(''number'', JInt 4), (''title'', JStr ''d'')])])]\<rparr>)
   \<and> ui_get_nodes B0 empty_server ''issue'' 7 = Some (Inr [], 8)"
proof -
  have s1: "serves issue_server (get_open_nodes_query B0 ''issue'' node_info1 ''OPEN'') ''issue''
          (requests state0) JNull [page1, page2, page3]"
    by (simp add: state0_def issue_server_def get_open_nodes_query_def page1_def page2_def
                  page3_def py_str_def dq_def nl_def)
  have s2: "serves empty_server (ui_get_open_nodes_query B0 ''issue'') ''issue'' 7 JNull [empty_page]"
    by (simp add: empty_server_def)
  have c: "map_of (cached_results state0) (''issue'' @ node_info1) = None"
    by (simp add: state0_def)
  have a: "[page1, page2, page3] \<noteq> []" "\<forall>p\<in>set (butlast [page1, page2, page3]). has_next_page p"
      "\<not> has_next_page (last [page1, page2, page3])"
    by (simp_all add: page1_def page2_def page3_def)
  have b: "[empty_page] \<noteq> []" "\<forall>p\<in>set (butlast [empty_page]). has_next_page p"
      "\<not> has_next_page (last [empty_page])"
    by (simp_all add: empty_page_def)
  from pagination_complete [OF a, of state0 "''issue''" node_info1 issue_server B0 "''OPEN''"] c s1
  have "get_nodes B0 issue_server ''issue'' node_info1 ''OPEN'' state0 =
      Some (Inr (merge_nodes (all_page_nodes [page1, page2, page3]) []),
            state0\<lparr>requests := requests state0 + length [page1, page2, page3],
              cached_results := AList.update (''issue'' @ node_info1)
                (merge_nodes (all_page_nodes [page1, page2, page3]) []) (cached_results state0)\<rparr>)"
    by blast
  moreover from pagination_complete [OF b, of state0 "''issue''" node_info1 empty_server B0 "''OPEN''" 7] s2
  have "ui_get_nodes B0 empty_server ''issue'' 7 =
      Some (Inr (merge_nodes (all_page_nodes [empty_page]) []), 7 + length [empty_page])"
    by blast
  ultimately show ?thesis
    by (simp add: all_page_nodes_def merge_nodes_def page1_def page2_def page3_def empty_page_def
                  node_json_def state0_def)
qed

lemma count_list_distinct:
  "distinct xs \<Longrightarrow> x \<in> set xs \<Longrightarrow> count_list xs x = 1"
  by (induction xs) (auto simp: count_list_0_iff)

lemma merge_nodes_once:
  assumes "i < length ns" and "\<forall>j. i < j \<and> j < length ns \<longrightarrow> fst (ns ! j) \<noteq> fst (ns ! i)"
  shows "distinct (map fst (merge_nodes ns []))
       \<and> count_list (map fst (merge_nodes ns [])) (JInt (fst (ns ! i))) = 1
       \<and> map_of (merge_nodes ns []) (JInt (fst (ns ! i))) = Some (node_json (ns ! i))"
proof -
  have d: "distinct (map fst (merge_nodes ns []))"
    by (simp add: merge_nodes_distinct)
  have "JInt (fst (ns ! i)) \<in> fst ` set (merge_nodes ns [])"
    using assms(1) by (simp add: merge_nodes_keys)
  then have "count_list (map fst (merge_nodes ns [])) (JInt (fst (ns ! i))) = 1"
    using d by (intro count_list_distinct) simp_all
  with d merge_nodes_last_wins [OF assms] show ?thesis by simp
qed

text \<open>
  Claim C3: when a number occurs in several fetched nodes, the NodeSet returned by the
  paginator of either script has that number exactly once, and it maps it to the last
  node with that number in fetch order, so to the version of the later page.
\<close>

theorem duplicate_number_later_page_wins:
  assumes "ps \<noteq> []" and "\<forall>p\<in>set (butlast ps). has_next_page p" and "\<not> has_next_page (last ps)"
    and "i < length (all_page_nodes ps)"
    and "\<forall>j. i < j \<and> j < length (all_page_nodes ps)
           \<longrightarrow> fst (all_page_nodes ps ! j) \<noteq> fst (all_page_nodes ps ! i)"
  shows "(map_of (cached_results s) (node_type @ node_info) = None
          \<and> serves tr (get_open_nodes_query B node_type node_info states) node_type (requests s) JNull ps
          \<longrightarrow> (\<exists>ns s'. get_nodes B tr node_type node_info states s = Some (Inr ns, s')
                \<and> distinct (map fst ns)
                \<and> count_list (map fst ns) (JInt (fst (all_page_nodes ps ! i))) = 1
                \<and> map_of ns (JInt (fst (all_page_nodes ps ! i))) = Some (node_json (all_page_nodes ps ! i))))
       \<and> (serves tr' (ui_get_open_nodes_query B node_type) node_type k JNull ps
          \<longrightarrow> (\<exists>ns k'. ui_get_nodes B tr' node_type k = Some (Inr ns, k')
                \<and> distinct (map fst ns)
                \<and> count_list (map fst ns) (JInt (fst (all_page_nodes ps ! i))) = 1
                \<and> map_of ns (JInt (fst (all_page_nodes ps ! i))) = Some (node_json (all_page_nodes ps ! i))))"
proof (intro conjI impI)
  assume "map_of (cached_results s) (node_type @ node_info) = None
          \<and> serves tr (get_open_nodes_query B node_type node_info states) node_type (requests s) JNull ps"
  then have "get_nodes B tr node_type node_info states s =
           Some (Inr (merge_nodes (all_page_nodes ps) []),
                 s\<lparr>requests := requests s + length ps,
                   cached_results := AList.update (node_type @ node_info)
                      (merge_nodes (all_page_nodes ps) []) (cached_results s)\<rparr>)"
    using assms(1-3) by (intro get_nodes_pages) auto
  with merge_nodes_once [OF assms(4,5)]
  show "\<exists>ns s'. get_nodes B tr node_type node_info states s = Some (Inr ns, s')
                \<and> distinct (map fst ns)
                \<and> count_list (map fst ns) (JInt (fst (all_page_nodes ps ! i))) = 1
                \<and> map_of ns (JInt (fst (all_page_nodes ps ! i))) = Some (node_json (all_page_nodes ps ! i))"
    by blast
next
  assume "serves tr' (ui_get_open_nodes_query B node_type) node_type k JNull ps"
  then have "ui_get_nodes B tr' node_type k = Some (Inr (merge_nodes (all_page_nodes ps) []), k + length ps)"
    unfolding ui_get_nodes_def using assms(1-3) by (intro ui_get_nodes_loop_pages) auto
  with merge_nodes_once [OF assms(4,5)]
  show "\<exists>ns k'. ui_get_nodes B tr' node_type k = Some (Inr ns, k')
                \<and> distinct (map fst ns)
                \<and> count_list (map fst ns) (JInt (fst (all_page_nodes ps ! i))) = 1
                \<and> map_of ns (JInt (fst (all_page_nodes ps ! i))) = Some (node_json (all_page_nodes ps ! i))"
    by blast
qed

theorem duplicate_number_later_page_wins_witness:
  "(\<exists>ns s'. get_nodes B0 pr_server ''pullRequest'' node_info1 ''OPEN'' state0 = Some (Inr ns, s')
       \<and> distinct (map fst ns) \<and> count_list (map fst ns) (JInt 2) = 1
       \<and> map_of ns (JInt 2) = Some (JObj [(''number'', JInt 2), (''title'', JStr ''b, edited'')]))
   \<and> (\<exists>ns k'. ui_get_nodes B0 ui_pr_server ''pullRequest'' 0 = Some (Inr ns, k')
       \<and> distinct (map fst ns) \<and> count_list (map fst ns) (JInt 2) = 1
       \<and> map_of ns (JInt 2) = Some (JObj [(''number'', JInt 2), (''title'', JStr ''b, edited'')]))"
proof -
  let ?ps = "[page1, page2_again]"
  have all: "all_page_nodes ?ps =
      [(1, [(''title'', JStr ''a'')]), (2, [(''title'', JStr ''b'')]),
       (2, [(''title'', JStr ''b, edited'')]), (3, [(''title'', JStr ''c'')])]"
    by (simp add: all_page_nodes_def page1_def page2_again_def)
  have a: "?ps \<noteq> []" "\<forall>p\<in>set (butlast ?ps). has_next_page p" "\<not> has_next_page (last ?ps)"
    by (simp_all add: page1_def page2_again_def)
  have i: "2 < length (all_page_nodes ?ps)"
    by (simp add: all)
  have last: "\<forall>j. 2 < j \<and> j < length (all_page_nodes ?ps)
           \<longrightarrow> fst (all_page_nodes ?ps ! j) \<noteq> fst (all_page_nodes ?ps ! 2)"
  proof (intro allI impI)
    fix j assume "2 < j \<and> j < length (all_page_nodes ?ps)"
    then have "j = 3" by (simp add: all)
    then show "fst (all_page_nodes ?ps ! j) \<noteq> fst (all_page_nodes ?ps ! 2)"
      by (simp add: all)
  qed
  have s1: "map_of (cached_results state0) (''pullRequest'' @ node_info1) = None
      \<and> serves pr_server (get_open_nodes_query B0 ''pullRequest'' node_info1 ''OPEN'') ''pullRequest''
          (requests state0) JNull ?ps"
    by (simp add: state0_def pr_server_def get_open_nodes_query_def page1_def page2_again_def
                  py_str_def dq_def nl_def)
  have s2: "serves ui_pr_server (ui_get_open_nodes_query B0 ''pullRequest'') ''pullRequest'' 0 JNull ?ps"
    by (simp add: ui_pr_server_def ui_get_open_nodes_query_def page1_def page2_again_def
                  py_str_def dq_def nl_def)
  from duplicate_number_later_page_wins [OF a i last, of state0 "''pullRequest''" node_info1
      pr_server B0 "''OPEN''" ui_pr_server 0] s1 s2
  show ?thesis
    by (simp add: all node_json_def)
qed

section \<open>Properties of the unassigned classifier\<close>

lemma unassigned_loop_lines:
  assumes "unassigned_loop B items printed cnt = Inr (printed', cnt')"
  shows "\<exists>new. printed' = printed @ new
           \<and> map Inr new = map (\<lambda>it. node_line (snd it))
                              (filter (\<lambda>it. num_assignees B (snd it) = Inr 0) items)
           \<and> cnt' = cnt + length new"
  using assms
proof (induction items arbitrary: printed cnt)
  case Nil
  then show ?case by simp
next
  case (Cons item items)
  from Cons.prems obtain n where n: "num_assignees B (snd item) = Inr n"
    by (cases "num_assignees B (snd item)") simp_all
  show ?case
  proof (cases "n = 0")
    case True
    with Cons.prems n obtain l where l: "node_line (snd item) = Inr l"
      by (cases "node_line (snd item)") simp_all
    with Cons.prems n True
    have "unassigned_loop B items (printed @ [l]) (Suc cnt) = Inr (printed', cnt')"
      by simp
    from Cons.IH [OF this] obtain new where
      "printed' = (printed @ [l]) @ new"
      "map Inr new = map (\<lambda>it. node_line (snd it))
                       (filter (\<lambda>it. num_assignees B (snd it) = Inr 0) items)"
      "cnt' = Suc cnt + length new"
      by blast
    then show ?thesis using n True l
      by (intro exI [of _ "l # new"]) simp
  next
    case False
    with Cons.prems n
    have "unassigned_loop B items printed cnt = Inr (printed', cnt')"
      by simp
    from Cons.IH [OF this] show ?thesis using n False by simp
  qed
qed

lemma sort_items_mset: "mset (sort_items reverse f xs) = mset xs"
  by (simp add: sort_items_def)

lemma sort_items_descending: "sorted (rev (map f (sort_items True f xs)))"
  by (simp add: sort_items_def rev_map)

lemma sort_items_ascending: "sorted (map f (sort_items False f xs))"
  by (simp add: sort_items_def)

lemma py_sorted_items_int:
  assumes "list_all is_int_key nodes" and "py_sorted_items reverse nodes = Inr items"
  shows "mset items = mset nodes
       \<and> (if reverse then sorted (rev (map int_key items)) else sorted (map int_key items))"
proof (cases "length nodes \<le> 1")
  case True
  then have "items = nodes" using assms(2) by (simp add: py_sorted_items_def)
  moreover from True have "nodes = [] \<or> (\<exists>x. nodes = [x])"
    by (cases nodes) auto
  ultimately show ?thesis by auto
next
  case False
  then have "items = sort_items reverse int_key nodes"
    using assms by (simp add: py_sorted_items_def)
  then show ?thesis
    by (cases reverse) (simp_all add: sort_items_mset sort_items_descending sort_items_ascending)
qed

lemma unassigned_sorted:
  assumes "list_all is_int_key nodes"
    and "bindE (py_sorted_items reverse nodes) (\<lambda>items. unassigned_loop B items [] 0)
           = Inr (printed, cnt)"
  shows "\<exists>sel. mset sel = mset (filter (\<lambda>it. num_assignees B (snd it) = Inr 0) nodes)
           \<and> (if reverse then sorted (rev (map int_key sel)) else sorted (map int_key sel))
           \<and> map Inr printed = map (\<lambda>it. node_line (snd it)) sel
           \<and> cnt = length sel"
proof -
  from assms(2) obtain items where items: "py_sorted_items reverse nodes = Inr items"
    and loop: "unassigned_loop B items [] 0 = Inr (printed, cnt)"
    by (cases "py_sorted_items reverse nodes") simp_all
  let ?sel = "filter (\<lambda>it. num_assignees B (snd it) = Inr 0) items"
  from unassigned_loop_lines [OF loop]
  have lines: "map Inr printed = map (\<lambda>it. node_line (snd it)) ?sel" and "cnt = length printed"
    by auto
  then have cnt: "cnt = length ?sel"
    by (metis length_map)
  from py_sorted_items_int [OF assms(1) items]
  have m: "mset items = mset nodes"
    and s: "if reverse then sorted (rev (map int_key items)) else sorted (map int_key items)"
    by simp_all
  have "mset ?sel = mset (filter (\<lambda>it. num_assignees B (snd it) = Inr 0) nodes)"
    using m by (simp add: mset_filter)
  moreover have "if reverse then sorted (rev (map int_key ?sel)) else sorted (map int_key ?sel)"
  proof (cases reverse)
    case True
    with s have "sorted (map int_key (rev items))" by (simp add: rev_map)
    then have "sorted (map int_key (filter (\<lambda>it. num_assignees B (snd it) = Inr 0) (rev items)))"
      by (rule sorted_filter)
    then show ?thesis using True by (simp add: rev_map rev_filter)
  next
    case False
    with s have "sorted (map int_key items)" by simp
    then have "sorted (map int_key ?sel)" by (rule sorted_filter)
    then show ?thesis using False by simp
  qed
  ultimately show ?thesis using lines cnt by blast
qed

text \<open>
  Claim C4 says that the unassigned classifier outputs the nodes without assignee by
  number descending. \<^verbatim>\<open>show_unassigned_nodes\<close> of unassigned\_issues.py iterates over
  \<^verbatim>\<open>sorted(nodes.items())\<close>: of two unassigned nodes numbered 5 and 9 it prints number 5
  first.
\<close>

theorem ui_unassigned_ascending:
  "ui_unassigned B0 three_nodes =
     Inr ([(JStr ''u5'', JStr ''five''), (JStr ''u9'', JStr ''nine'')], 2)"
  by (simp add: ui_unassigned_def py_sorted_items_def sort_items_def three_nodes_def issue_node_def
                num_assignees_def node_line_def)

text \<open>
  Claim C4 as amended: for a NodeSet keyed by integer numbers, both scripts print exactly
  the nodes whose assignee count is zero, one line (url, title) each, and a total equal
  to the number of these nodes; graal\_report.py prints them by number descending,
  unassigned\_issues.py by number ascending; the empty NodeSet gives no line and the
  total zero.
\<close>

theorem unassigned_exact:
  assumes "list_all is_int_key nodes"
  shows "(unassigned B nodes = Inr (printed, cnt) \<longrightarrow>
           (\<exists>sel. mset sel = mset (filter (\<lambda>it. num_assignees B (snd it) = Inr 0) nodes)
              \<and> sorted (rev (map int_key sel))
              \<and> map Inr printed = map (\<lambda>it. node_line (snd it)) sel
              \<and> cnt = length sel))
       \<and> (ui_unassigned B nodes = Inr (printed', cnt') \<longrightarrow>
           (\<exists>sel. mset sel = mset (filter (\<lambda>it. num_assignees B (snd it) = Inr 0) nodes)
              \<and> sorted (map int_key sel)
              \<and> map Inr printed' = map (\<lambda>it. node_line (snd it)) sel
              \<and> cnt' = length sel))
       \<and> unassigned B [] = Inr ([], 0)
       \<and> ui_unassigned B [] = Inr ([], 0)"
proof (intro conjI impI)
  assume "unassigned B nodes = Inr (printed, cnt)"
  then show "\<exists>sel. mset sel = mset (filter (\<lambda>it. num_assignees B (snd it) = Inr 0) nodes)
              \<and> sorted (rev (map int_key sel))
              \<and> map Inr printed = map (\<lambda>it. node_line (snd it)) sel
              \<and> cnt = length sel"
    using unassigned_sorted [OF assms, of True B printed cnt] by (simp add: unassigned_def)
next
  assume "ui_unassigned B nodes = Inr (printed', cnt')"
  then show "\<exists>sel. mset sel = mset (filter (\<lambda>it. num_assignees B (snd it) = Inr 0) nodes)
              \<and> sorted (map int_key sel)
              \<and> map Inr printed' = map (\<lambda>it. node_line (snd it)) sel
              \<and> cnt' = length sel"
    using unassigned_sorted [OF assms, of False B printed' cnt'] by (simp add: ui_unassigned_def)
next
  show "unassigned B [] = Inr ([], 0)"
    by (simp add: unassigned_def py_sorted_items_def)
next
  show "ui_unassigned B [] = Inr ([], 0)"
    by (simp add: ui_unassigned_def py_sorted_items_def)
qed

theorem unassigned_exact_witness:
  "unassigned B0 three_nodes = Inr ([(JStr ''u9'', JStr ''nine''), (JStr ''u5'', JStr ''five'')], 2)
   \<and> (\<exists>sel. mset sel = mset [(JInt 5, issue_node 5 ''u5'' ''five'' 0 []),
                               (JInt 9, issue_node 9 ''u9'' ''nine'' 0 [])]
         \<and> sorted (rev (map int_key sel))
         \<and> map Inr [(JStr ''u9'', JStr ''nine''), (JStr ''u5'', JStr ''five'')]
             = map (\<lambda>it. node_line (snd it)) sel
         \<and> (2::nat) = length sel)
   \<and> (\<exists>sel. mset sel = mset [(JInt 5, issue_node 5 ''u5'' ''five'' 0 []),
                               (JInt 9, issue_node 9 ''u9'' ''nine'' 0 [])]
         \<and> sorted (map int_key sel)
         \<and> map Inr [(JStr ''u5'', JStr ''five''), (JStr ''u9'', JStr ''nine'')]
             = map (\<lambda>it. node_line (snd it)) sel
         \<and> (2::nat) = length sel)"
proof -
  have k: "list_all is_int_key three_nodes"
    by (simp add: three_nodes_def)
  have g: "unassigned B0 three_nodes =
      Inr ([(JStr ''u9'', JStr ''nine''), (JStr ''u5'', JStr ''five'')], 2)"
    by (simp add: unassigned_def py_sorted_items_def sort_items_def three_nodes_def issue_node_def
                  num_assignees_def node_line_def)
  have u: "ui_unassigned B0 three_nodes =
      Inr ([(JStr ''u5'', JStr ''five''), (JStr ''u9'', JStr ''nine'')], 2)"
    by (simp add: ui_unassigned_def py_sorted_items_def sort_items_def three_nodes_def issue_node_def
                  num_assignees_def node_line_def)
  have f: "filter (\<lambda>it. num_assignees B0 (snd it) = Inr 0) three_nodes =
      [(JInt 5, issue_node 5 ''u5'' ''five'' 0 []), (JInt 9, issue_node 9 ''u9'' ''nine'' 0 [])]"
    by (simp add: three_nodes_def issue_node_def num_assignees_def)
  from unassigned_exact [OF k, of B0 "[(JStr ''u9'', JStr ''nine''), (JStr ''u5'', JStr ''five'')]" 2
      "[(JStr ''u5'', JStr ''five''), (JStr ''u9'', JStr ''nine'')]" 2] g u
  show ?thesis
    unfolding f by blast
qed

section \<open>Properties of the staleness classifier\<close>

lemma scan_edge_cases:
  assumes "scan_edge B e prev = Inr r"
  shows "(\<not> oracle_comment e \<and> r = prev)
       \<or> (oracle_comment e \<and> prev = None
            \<and> (\<exists>u t. comment_url e = Inr u \<and> comment_updated_at B e = Inr t \<and> r = Some (u, t)))
       \<or> (oracle_comment e
            \<and> (\<exists>u0 t0 t. prev = Some (u0, t0) \<and> comment_updated_at B e = Inr t
                  \<and> instant t \<le> instant t0 \<and> r = prev))
       \<or> (oracle_comment e
            \<and> (\<exists>u0 t0 u t. prev = Some (u0, t0) \<and> comment_updated_at B e = Inr t
                  \<and> comment_url e = Inr u \<and> instant t0 < instant t \<and> r = Some (u, t)))"
  using assms
  by (auto simp: scan_edge_def oracle_comment_def comment_updated_at_def comment_url_def
                 bindE_def dt_gt_def
           split: sum.splits option.splits if_splits)

text \<open>
  The loop over the timeline either keeps what it started with, and then every later
  comment by a member is not newer, or it ends with a comment by a member that is newer
  than what it started with, strictly newer than every comment by a member before it
  and at least as new as every one after it.
\<close>

lemma scan_timeline_retains:
  assumes "scan_timeline B es prev = Inr r"
  shows "(r = prev \<and> (\<forall>e\<in>set es. oracle_comment e \<longrightarrow>
              (\<exists>u0 t0 t. prev = Some (u0, t0) \<and> comment_updated_at B e = Inr t
                 \<and> instant t \<le> instant t0)))
       \<or> (\<exists>pre e post u t. es = pre @ e # post \<and> r = Some (u, t) \<and> oracle_comment e
             \<and> comment_url e = Inr u \<and> comment_updated_at B e = Inr t
             \<and> (\<forall>u0 t0. prev = Some (u0, t0) \<longrightarrow> instant t0 < instant t)
             \<and> (\<forall>e'\<in>set pre. oracle_comment e' \<longrightarrow>
                   (\<exists>t'. comment_updated_at B e' = Inr t' \<and> instant t' < instant t))
             \<and> (\<forall>e'\<in>set post. oracle_comment e' \<longrightarrow>
                   (\<exists>t'. comment_updated_at B e' = Inr t' \<and> instant t' \<le> instant t)))"
  using assms
proof (induction es arbitrary: prev)
  case Nil
  then show ?case by simp
next
  case (Cons x es)
  from Cons.prems obtain mid where step: "scan_edge B x prev = Inr mid"
    and rest: "scan_timeline B es mid = Inr r"
    by (cases "scan_edge B x prev") simp_all
  note edge = scan_edge_cases [OF step]
  from Cons.IH [OF rest] show ?case
  proof (elim disjE conjE exE)
    assume r: "r = mid"
      and later: "\<forall>e\<in>set es. oracle_comment e \<longrightarrow>
              (\<exists>u0 t0 t. mid = Some (u0, t0) \<and> comment_updated_at B e = Inr t
                 \<and> instant t \<le> instant t0)"
    show ?thesis
    proof (cases "mid = prev")
      case True
      have "oracle_comment x \<longrightarrow>
              (\<exists>u0 t0 t. prev = Some (u0, t0) \<and> comment_updated_at B x = Inr t
                 \<and> instant t \<le> instant t0)"
        using edge True by (elim disjE) auto
      with r True later show ?thesis by auto
    next
      case False
      with edge obtain u t where x: "oracle_comment x" "comment_updated_at B x = Inr t"
        "comment_url x = Inr u" "mid = Some (u, t)"
        and newer: "\<forall>u0 t0. prev = Some (u0, t0) \<longrightarrow> instant t0 < instant t"
        by (elim disjE) auto
      have "\<forall>e'\<in>set es. oracle_comment e' \<longrightarrow>
                   (\<exists>t'. comment_updated_at B e' = Inr t' \<and> instant t' \<le> instant t)"
        using later x(4) by auto
      with x newer r have "x # es = [] @ x # es \<and> r = Some (u, t) \<and> oracle_comment x
             \<and> comment_url x = Inr u \<and> comment_updated_at B x = Inr t
             \<and> (\<forall>u0 t0. prev = Some (u0, t0) \<longrightarrow> instant t0 < instant t)
             \<and> (\<forall>e'\<in>set []. oracle_comment e' \<longrightarrow>
                   (\<exists>t'. comment_updated_at B e' = Inr t' \<and> instant t' < instant t))
             \<and> (\<forall>e'\<in>set es. oracle_comment e' \<longrightarrow>
                   (\<exists>t'. comment_updated_at B e' = Inr t' \<and> instant t' \<le> instant t))"
        by simp
      then show ?thesis by blast
    qed
  next
    fix pre e post u t
    assume es: "es = pre @ e # post" and r: "r = Some (u, t)" and e: "oracle_comment e"
      "comment_url e = Inr u" "comment_updated_at B e = Inr t"
      and mid: "\<forall>u0 t0. mid = Some (u0, t0) \<longrightarrow> instant t0 < instant t"
      and before: "\<forall>e'\<in>set pre. oracle_comment e' \<longrightarrow>
                   (\<exists>t'. comment_updated_at B e' = Inr t' \<and> instant t' < instant t)"
      and after: "\<forall>e'\<in>set post. oracle_comment e' \<longrightarrow>
                   (\<exists>t'. comment_updated_at B e' = Inr t' \<and> instant t' \<le> instant t)"
    have x: "oracle_comment x \<longrightarrow>
               (\<exists>t'. comment_updated_at B x = Inr t' \<and> instant t' < instant t)"
      using edge mid by (elim disjE) force+
    have prev: "\<forall>u0 t0. prev = Some (u0, t0) \<longrightarrow> instant t0 < instant t"
      using edge mid by (elim disjE) force+
    from es r e prev x before after
    have "x # es = (x # pre) @ e # post \<and> r = Some (u, t) \<and> oracle_comment e
             \<and> comment_url e = Inr u \<and> comment_updated_at B e = Inr t
             \<and> (\<forall>u0 t0. prev = Some (u0, t0) \<longrightarrow> instant t0 < instant t)
             \<and> (\<forall>e'\<in>set (x # pre). oracle_comment e' \<longrightarrow>
                   (\<exists>t'. comment_updated_at B e' = Inr t' \<and> instant t' < instant t))
             \<and> (\<forall>e'\<in>set post. oracle_comment e' \<longrightarrow>
                   (\<exists>t'. comment_updated_at B e' = Inr t' \<and> instant t' \<le> instant t))"
      by simp
    then show ?thesis by blast
  qed
qed

lemma scan_timeline_from_None:
  assumes "scan_timeline B es None = Inr r"
  shows "(r = None \<and> (\<forall>e\<in>set es. \<not> oracle_comment e))
       \<or> (\<exists>pre e post u t. es = pre @ e # post \<and> r = Some (u, t) \<and> oracle_comment e
             \<and> comment_url e = Inr u \<and> comment_updated_at B e = Inr t
             \<and> (\<forall>e'\<in>set pre. oracle_comment e' \<longrightarrow>
                   (\<exists>t'. comment_updated_at B e' = Inr t' \<and> instant t' < instant t))
             \<and> (\<forall>e'\<in>set post. oracle_comment e' \<longrightarrow>
                   (\<exists>t'. comment_updated_at B e' = Inr t' \<and> instant t' \<le> instant t)))"
  using scan_timeline_retains [OF assms] by auto

lemma last_oracle_comment_of_edges:
  assumes "last_oracle_comment_of B node = Inr r"
  obtains es where "timeline_edges node = Inr es" and "scan_timeline B es None = Inr r"
  using assms by (cases "timeline_edges node") (simp_all add: last_oracle_comment_of_def)

text \<open>
  When the scan of the timeline of a node ends without an exception, nothing is retained
  exactly when no timeline entry is a comment by a member of the organization, and what
  is retained is the url and update time of an entry that is such a comment and whose
  update time is greatest among such comments.
\<close>

lemma scan_retains_greatest:
  assumes "last_oracle_comment_of B node = Inr r"
  shows "\<exists>es. timeline_edges node = Inr es
           \<and> (r = None \<longleftrightarrow> (\<forall>e\<in>set es. \<not> oracle_comment e))
           \<and> (\<forall>u t. r = Some (u, t) \<longrightarrow>
                 (\<exists>e\<in>set es. oracle_comment e \<and> comment_url e = Inr u
                    \<and> comment_updated_at B e = Inr t)
               \<and> (\<forall>e'\<in>set es. oracle_comment e' \<longrightarrow>
                     (\<exists>t'. comment_updated_at B e' = Inr t' \<and> instant t' \<le> instant t)))"
proof -
  from assms obtain es where es: "timeline_edges node = Inr es"
    and scan: "scan_timeline B es None = Inr r"
    by (rule last_oracle_comment_of_edges)
  from scan_timeline_from_None [OF scan]
  have "(r = None \<longleftrightarrow> (\<forall>e\<in>set es. \<not> oracle_comment e))
           \<and> (\<forall>u t. r = Some (u, t) \<longrightarrow>
                 (\<exists>e\<in>set es. oracle_comment e \<and> comment_url e = Inr u
                    \<and> comment_updated_at B e = Inr t)
               \<and> (\<forall>e'\<in>set es. oracle_comment e' \<longrightarrow>
                     (\<exists>t'. comment_updated_at B e' = Inr t' \<and> instant t' \<le> instant t)))"
  proof (elim disjE conjE exE)
    assume "r = None" "\<forall>e\<in>set es. \<not> oracle_comment e"
    then show ?thesis by simp
  next
    fix pre e post u t
    assume h: "es = pre @ e # post" "r = Some (u, t)" "oracle_comment e"
      "comment_url e = Inr u" "comment_updated_at B e = Inr t"
      "\<forall>e'\<in>set pre. oracle_comment e' \<longrightarrow>
          (\<exists>t'. comment_updated_at B e' = Inr t' \<and> instant t' < instant t)"
      "\<forall>e'\<in>set post. oracle_comment e' \<longrightarrow>
          (\<exists>t'. comment_updated_at B e' = Inr t' \<and> instant t' \<le> instant t)"
    have "\<forall>e'\<in>set es. oracle_comment e' \<longrightarrow>
            (\<exists>t'. comment_updated_at B e' = Inr t' \<and> instant t' \<le> instant t)"
    proof (intro ballI impI)
      fix e' assume "e' \<in> set es" "oracle_comment e'"
      with h(1) consider "e' \<in> set pre" | "e' = e" | "e' \<in> set post" by auto
      then show "\<exists>t'. comment_updated_at B e' = Inr t' \<and> instant t' \<le> instant t"
      proof cases
        case 1
        with h(6) \<open>oracle_comment e'\<close> show ?thesis by force
      next
        case 2
        with h(5) show ?thesis by simp
      next
        case 3
        with h(7) \<open>oracle_comment e'\<close> show ?thesis by blast
      qed
    qed
    moreover have "\<exists>e\<in>set es. oracle_comment e \<and> comment_url e = Inr u
                    \<and> comment_updated_at B e = Inr t"
      using h by auto
    moreover have "\<not> (\<forall>e\<in>set es. \<not> oracle_comment e)"
      using h by auto
    ultimately show ?thesis using h(2) by simp
  qed
  with es show ?thesis by blast
qed

lemma scan_retains_greatest_example:
  "last_oracle_comment_of B_iso stale_issue = Inr (Some (JStr ''c13'', naive_datetime 2024 2 4 11 0 0))
   \<and> (\<exists>es. timeline_edges stale_issue = Inr es
         \<and> (\<exists>e\<in>set es. oracle_comment e \<and> comment_url e = Inr (JStr ''c13'')
               \<and> comment_updated_at B_iso e = Inr (naive_datetime 2024 2 4 11 0 0))
         \<and> (\<forall>e'\<in>set es. oracle_comment e' \<longrightarrow>
               (\<exists>t'. comment_updated_at B_iso e' = Inr t'
                  \<and> instant t' \<le> instant (naive_datetime 2024 2 4 11 0 0))))"
proof -
  have ev: "last_oracle_comment_of B_iso stale_issue =
      Inr (Some (JStr ''c13'', naive_datetime 2024 2 4 11 0 0))"
    by code_simp
  from scan_retains_greatest [OF ev]
  have "\<exists>es. timeline_edges stale_issue = Inr es
         \<and> (\<exists>e\<in>set es. oracle_comment e \<and> comment_url e = Inr (JStr ''c13'')
               \<and> comment_updated_at B_iso e = Inr (naive_datetime 2024 2 4 11 0 0))
         \<and> (\<forall>e'\<in>set es. oracle_comment e' \<longrightarrow>
               (\<exists>t'. comment_updated_at B_iso e' = Inr t'
                  \<and> instant t' \<le> instant (naive_datetime 2024 2 4 11 0 0)))"
    by blast
  with ev show ?thesis ..
qed

text \<open>
  Claim C5 says that for every node only the timeline entries that are comments by a
  member of the organization are considered, and that one with the greatest update time
  among them is retained. The loop skips an entry that is not a comment (\<^verbatim>\<open>if item:\<close>) and
  a comment without author, but for every other author it subscripts
  \<^verbatim>\<open>author["organization"]\<close>, and the author of a comment by a bot has no such key. For a
  timeline with a comment by a member followed by a comment by a bot, the scan of the
  first entry alone retains the member's comment, the comment by the bot is not a
  comment by a member, and the scan of the whole timeline raises
  \<^verbatim>\<open>KeyError('organization')\<close> instead of passing over it.
\<close>

theorem bot_comment_raises:
  "timeline_edges bot_commented_node =
     Inr [comment_edge ''c15'' ''2024-03-01T10:00:00Z'' (oracle_author ''ann''),
          comment_edge ''c16'' ''2024-03-02T10:00:00Z'' (bot_author ''dependabot'')]
   \<and> scan_timeline B_iso [comment_edge ''c15'' ''2024-03-01T10:00:00Z'' (oracle_author ''ann'')] None =
       Inr (Some (JStr ''c15'', naive_datetime 2024 3 1 10 0 0))
   \<and> \<not> oracle_comment (comment_edge ''c16'' ''2024-03-02T10:00:00Z'' (bot_author ''dependabot''))
   \<and> last_oracle_comment_of B_iso bot_commented_node = Inl (KeyError ''organization'')"
  by code_simp

text \<open>
  Claim C10: the comment the scan retains is the earliest one in timeline order among the
  comments by members with the greatest update time: every such comment before it is
  strictly older, every one after it is not newer. This is so because one round of the
  loop replaces a retained comment only by a strictly newer one.
\<close>

theorem tie_keeps_earliest_comment:
  shows "(last_oracle_comment_of B node = Inr (Some (u, t)) \<longrightarrow>
           (\<exists>pre e post. timeline_edges node = Inr (pre @ e # post)
              \<and> oracle_comment e \<and> comment_url e = Inr u \<and> comment_updated_at B e = Inr t
              \<and> (\<forall>e'\<in>set pre. oracle_comment e' \<longrightarrow>
                    (\<exists>t'. comment_updated_at B e' = Inr t' \<and> instant t' < instant t))
              \<and> (\<forall>e'\<in>set post. oracle_comment e' \<longrightarrow>
                    (\<exists>t'. comment_updated_at B e' = Inr t' \<and> instant t' \<le> instant t))))
       \<and> (scan_edge B edge (Some (u0, t0)) = Inr r \<and> r \<noteq> Some (u0, t0) \<longrightarrow>
           (\<exists>u' t'. r = Some (u', t') \<and> comment_updated_at B edge = Inr t'
              \<and> instant t0 < instant t'))"
proof (intro conjI impI)
  assume a: "last_oracle_comment_of B node = Inr (Some (u, t))"
  then obtain es where es: "timeline_edges node = Inr es"
    and scan: "scan_timeline B es None = Inr (Some (u, t))"
    by (rule last_oracle_comment_of_edges)
  from scan_timeline_from_None [OF scan] es
  show "\<exists>pre e post. timeline_edges node = Inr (pre @ e # post)
              \<and> oracle_comment e \<and> comment_url e = Inr u \<and> comment_updated_at B e = Inr t
              \<and> (\<forall>e'\<in>set pre. oracle_comment e' \<longrightarrow>
                    (\<exists>t'. comment_updated_at B e' = Inr t' \<and> instant t' < instant t))
              \<and> (\<forall>e'\<in>set post. oracle_comment e' \<longrightarrow>
                    (\<exists>t'. comment_updated_at B e' = Inr t' \<and> instant t' \<le> instant t))"
    by auto
next
  assume "scan_edge B edge (Some (u0, t0)) = Inr r \<and> r \<noteq> Some (u0, t0)"
  then show "\<exists>u' t'. r = Some (u', t') \<and> comment_updated_at B edge = Inr t'
              \<and> instant t0 < instant t'"
    using scan_edge_cases [of B edge "Some (u0, t0)" r] by auto
qed

theorem tie_keeps_earliest_comment_witness:
  "last_oracle_comment_of B_iso (issue_node 1 ''u'' ''t'' 0 tied_timeline) =
     Inr (Some (JStr ''c2'', naive_datetime 2024 2 1 12 0 0))
   \<and> comment_updated_at B_iso (tied_timeline ! 3) = Inr (naive_datetime 2024 2 1 12 0 0)
   \<and> comment_url (tied_timeline ! 3) = Inr (JStr ''c3'')
   \<and> (\<exists>pre e post. timeline_edges (issue_node 1 ''u'' ''t'' 0 tied_timeline) = Inr (pre @ e # post)
         \<and> oracle_comment e \<and> comment_url e = Inr (JStr ''c2'')
         \<and> (\<forall>e'\<in>set pre. oracle_comment e' \<longrightarrow>
               (\<exists>t'. comment_updated_at B_iso e' = Inr t'
                  \<and> instant t' < instant (naive_datetime 2024 2 1 12 0 0))))
   \<and> scan_edge B_iso (tied_timeline ! 3) (Some (JStr ''c2'', naive_datetime 2024 2 1 12 0 0))
       = Inr (Some (JStr ''c2'', naive_datetime 2024 2 1 12 0 0))
   \<and> scan_edge B_iso (tied_timeline ! 2) (Some (JStr ''c1'', naive_datetime 2024 1 10 8 0 0))
       = Inr (Some (JStr ''c2'', naive_datetime 2024 2 1 12 0 0))
   \<and> instant (naive_datetime 2024 1 10 8 0 0) < instant (naive_datetime 2024 2 1 12 0 0)"
proof -
  have ev: "last_oracle_comment_of B_iso (issue_node 1 ''u'' ''t'' 0 tied_timeline) =
      Inr (Some (JStr ''c2'', naive_datetime 2024 2 1 12 0 0))"
    by code_simp
  have t3: "comment_updated_at B_iso (tied_timeline ! 3) = Inr (naive_datetime 2024 2 1 12 0 0)"
    by code_simp
  have u3: "comment_url (tied_timeline ! 3) = Inr (JStr ''c3'')"
    by code_simp
  have keep: "scan_edge B_iso (tied_timeline ! 3) (Some (JStr ''c2'', naive_datetime 2024 2 1 12 0 0))
       = Inr (Some (JStr ''c2'', naive_datetime 2024 2 1 12 0 0))"
    by code_simp
  have repl: "scan_edge B_iso (tied_timeline ! 2) (Some (JStr ''c1'', naive_datetime 2024 1 10 8 0 0))
       = Inr (Some (JStr ''c2'', naive_datetime 2024 2 1 12 0 0))"
    by code_simp
  have ne: "Some (JStr ''c2'', naive_datetime 2024 2 1 12 0 0)
      \<noteq> Some (JStr ''c1'', naive_datetime 2024 1 10 8 0 0)"
    by simp
  from tie_keeps_earliest_comment [of B_iso "issue_node 1 ''u'' ''t'' 0 tied_timeline" "JStr ''c2''"
      "naive_datetime 2024 2 1 12 0 0" "tied_timeline ! 2" "JStr ''c1''"
      "naive_datetime 2024 1 10 8 0 0" "Some (JStr ''c2'', naive_datetime 2024 2 1 12 0 0)"]
    ev repl ne
  have "(\<exists>pre e post. timeline_edges (issue_node 1 ''u'' ''t'' 0 tied_timeline) = Inr (pre @ e # post)
         \<and> oracle_comment e \<and> comment_url e = Inr (JStr ''c2'')
         \<and> (\<forall>e'\<in>set pre. oracle_comment e' \<longrightarrow>
               (\<exists>t'. comment_updated_at B_iso e' = Inr t'
                  \<and> instant t' < instant (naive_datetime 2024 2 1 12 0 0))))
      \<and> instant (naive_datetime 2024 1 10 8 0 0) < instant (naive_datetime 2024 2 1 12 0 0)"
    by auto
  with ev t3 u3 keep repl show ?thesis by blast
qed

lemma stale_node_cases:
  assumes "stale_node B now node = Inr r"
  shows "\<exists>prev. last_oracle_comment_of B node = Inr prev
           \<and> (prev = None \<longrightarrow>
                 (\<exists>nurl title. subscr node ''url'' = Inr nurl \<and> subscr node ''title'' = Inr title
                    \<and> r = Some (NoOracleComments nurl title)))
           \<and> (\<forall>u t. prev = Some (u, t) \<longrightarrow>
                 (\<exists>days. dt_sub_days now t = Inr days
                    \<and> days = (instant now - instant t) div us_per_day
                    \<and> (30 < days \<longrightarrow>
                          (\<exists>nurl title. subscr node ''url'' = Inr nurl
                             \<and> subscr node ''title'' = Inr title
                             \<and> r = Some (Stale nurl title days u)))
                    \<and> (days \<le> 30 \<longrightarrow> r = None)))"
  using assms
  by (auto simp: stale_node_def bindE_def dt_sub_days_def
           split: sum.splits option.splits if_splits)

lemma stale_loop_lines:
  assumes "stale_loop B now items printed = Inr printed'"
  shows "\<exists>rs. map (\<lambda>it. stale_node B now (snd it)) items = map Inr rs
           \<and> printed' = printed @ concat (map (\<lambda>r. case r of None \<Rightarrow> [] | Some l \<Rightarrow> [l]) rs)"
  using assms
proof (induction items arbitrary: printed)
  case Nil
  then show ?case by simp
next
  case (Cons item items)
  from Cons.prems obtain r where r: "stale_node B now (snd item) = Inr r"
    by (cases "stale_node B now (snd item)") simp_all
  let ?new = "case r of None \<Rightarrow> [] | Some l \<Rightarrow> [l]"
  from Cons.prems r have "stale_loop B now items (printed @ ?new) = Inr printed'"
    by (cases r) simp_all
  from Cons.IH [OF this] obtain rs where
    "map (\<lambda>it. stale_node B now (snd it)) items = map Inr rs"
    "printed' = (printed @ ?new) @ concat (map (\<lambda>r. case r of None \<Rightarrow> [] | Some l \<Rightarrow> [l]) rs)"
    by blast
  then show ?case using r
    by (intro exI [of _ "r # rs"]) simp
qed

text \<open>
  A node that the classifier handles without an exception gets a line exactly when it
  has no retained comment by a member, and then the line is the one for
  "no Oracle comments", or when the days between the current time and the retained
  comment's update time, rounded down, are more than 30, and then the line carries the
  number of days and the url of the comment; with 30 days or less it gets no line. A
  report that ends without an exception is made of the lines of the nodes, in the order
  of the sorted NodeSet.
\<close>

lemma stale_lines:
  shows "(stale_node B now node = Inr r \<longrightarrow>
           (\<exists>prev. last_oracle_comment_of B node = Inr prev
              \<and> (r \<noteq> None \<longleftrightarrow>
                   prev = None
                   \<or> (\<exists>u t. prev = Some (u, t) \<and> 30 < (instant now - instant t) div us_per_day))
              \<and> (prev = None \<longrightarrow>
                   (\<exists>nurl title. subscr node ''url'' = Inr nurl \<and> subscr node ''title'' = Inr title
                      \<and> r = Some (NoOracleComments nurl title)))
              \<and> (\<forall>u t. prev = Some (u, t) \<and> 30 < (instant now - instant t) div us_per_day \<longrightarrow>
                   (\<exists>nurl title. subscr node ''url'' = Inr nurl \<and> subscr node ''title'' = Inr title
                      \<and> r = Some (Stale nurl title ((instant now - instant t) div us_per_day) u)))))
       \<and> (no_recent_activity B now nodes = Inr printed \<longrightarrow>
           (\<exists>items rs. py_sorted_items True nodes = Inr items
              \<and> map (\<lambda>it. stale_node B now (snd it)) items = map Inr rs
              \<and> printed = concat (map (\<lambda>r. case r of None \<Rightarrow> [] | Some l \<Rightarrow> [l]) rs)))"
proof (intro conjI impI)
  assume "stale_node B now node = Inr r"
  from stale_node_cases [OF this] obtain prev where prev: "last_oracle_comment_of B node = Inr prev"
    and none: "prev = None \<longrightarrow>
                 (\<exists>nurl title. subscr node ''url'' = Inr nurl \<and> subscr node ''title'' = Inr title
                    \<and> r = Some (NoOracleComments nurl title))"
    and some: "\<forall>u t. prev = Some (u, t) \<longrightarrow>
                 (\<exists>days. dt_sub_days now t = Inr days
                    \<and> days = (instant now - instant t) div us_per_day
                    \<and> (30 < days \<longrightarrow>
                          (\<exists>nurl title. subscr node ''url'' = Inr nurl
                             \<and> subscr node ''title'' = Inr title
                             \<and> r = Some (Stale nurl title days u)))
                    \<and> (days \<le> 30 \<longrightarrow> r = None))"
    by blast
  have iff: "r \<noteq> None \<longleftrightarrow>
          prev = None \<or> (\<exists>u t. prev = Some (u, t) \<and> 30 < (instant now - instant t) div us_per_day)"
  proof (cases prev)
    case None
    with none show ?thesis by auto
  next
    case (Some p)
    obtain u t where p: "p = (u, t)" by (cases p)
    from some Some p show ?thesis
      by (cases "30 < (instant now - instant t) div us_per_day") auto
  qed
  have stale: "\<forall>u t. prev = Some (u, t) \<and> 30 < (instant now - instant t) div us_per_day \<longrightarrow>
                   (\<exists>nurl title. subscr node ''url'' = Inr nurl \<and> subscr node ''title'' = Inr title
                      \<and> r = Some (Stale nurl title ((instant now - instant t) div us_per_day) u))"
    using some by blast
  from prev iff none stale
  show "\<exists>prev. last_oracle_comment_of B node = Inr prev
              \<and> (r \<noteq> None \<longleftrightarrow>
                   prev = None
                   \<or> (\<exists>u t. prev = Some (u, t) \<and> 30 < (instant now - instant t) div us_per_day))
              \<and> (prev = None \<longrightarrow>
                   (\<exists>nurl title. subscr node ''url'' = Inr nurl \<and> subscr node ''title'' = Inr title
                      \<and> r = Some (NoOracleComments nurl title)))
              \<and> (\<forall>u t. prev = Some (u, t) \<and> 30 < (instant now - instant t) div us_per_day \<longrightarrow>
                   (\<exists>nurl title. subscr node ''url'' = Inr nurl \<and> subscr node ''title'' = Inr title
                      \<and> r = Some (Stale nurl title ((instant now - instant t) div us_per_day) u)))"
    by blast
next
  assume a: "no_recent_activity B now nodes = Inr printed"
  then obtain items where items: "py_sorted_items True nodes = Inr items"
    and loop: "stale_loop B now items [] = Inr printed"
    by (cases "py_sorted_items True nodes") (simp_all add: no_recent_activity_def)
  from stale_loop_lines [OF loop] items
  show "\<exists>items rs. py_sorted_items True nodes = Inr items
              \<and> map (\<lambda>it. stale_node B now (snd it)) items = map Inr rs
              \<and> printed = concat (map (\<lambda>r. case r of None \<Rightarrow> [] | Some l \<Rightarrow> [l]) rs)"
    by auto
qed

lemma stale_lines_example:
  "stale_node B_iso noon_2024_03_20 silent_node = Inr (Some (NoOracleComments (JStr ''u11'') (JStr ''silent'')))
   \<and> stale_node B_iso noon_2024_03_20 fresh_node = Inr None
   \<and> stale_node B_iso noon_2024_03_20 stale_issue =
       Inr (Some (Stale (JStr ''u13'') (JStr ''stale'') 45 (JStr ''c13'')))
   \<and> no_recent_activity B_iso noon_2024_03_20 stale_nodes =
       Inr [Stale (JStr ''u13'') (JStr ''stale'') 45 (JStr ''c13''),
            NoOracleComments (JStr ''u11'') (JStr ''silent'')]
   \<and> (\<exists>prev. last_oracle_comment_of B_iso stale_issue = Inr prev
         \<and> (prev = None
             \<or> (\<exists>u t. prev = Some (u, t) \<and> 30 < (instant noon_2024_03_20 - instant t) div us_per_day)))
   \<and> (\<exists>items rs. py_sorted_items True stale_nodes = Inr items
         \<and> map (\<lambda>it. stale_node B_iso noon_2024_03_20 (snd it)) items = map Inr rs
         \<and> [Stale (JStr ''u13'') (JStr ''stale'') 45 (JStr ''c13''),
             NoOracleComments (JStr ''u11'') (JStr ''silent'')]
           = concat (map (\<lambda>r. case r of None \<Rightarrow> [] | Some l \<Rightarrow> [l]) rs))"
proof -
  have a: "stale_node B_iso noon_2024_03_20 silent_node =
      Inr (Some (NoOracleComments (JStr ''u11'') (JStr ''silent'')))"
    by code_simp
  have b: "stale_node B_iso noon_2024_03_20 fresh_node = Inr None"
    by code_simp
  have c: "stale_node B_iso noon_2024_03_20 stale_issue =
      Inr (Some (Stale (JStr ''u13'') (JStr ''stale'') 45 (JStr ''c13'')))"
    by code_simp
  have d: "no_recent_activity B_iso noon_2024_03_20 stale_nodes =
      Inr [Stale (JStr ''u13'') (JStr ''stale'') 45 (JStr ''c13''),
           NoOracleComments (JStr ''u11'') (JStr ''silent'')]"
    by code_simp
  from stale_lines [of B_iso noon_2024_03_20 stale_issue
      "Some (Stale (JStr ''u13'') (JStr ''stale'') 45 (JStr ''c13''))" stale_nodes
      "[Stale (JStr ''u13'') (JStr ''stale'') 45 (JStr ''c13''),
        NoOracleComments (JStr ''u11'') (JStr ''silent'')]"] c d
  have "(\<exists>prev. last_oracle_comment_of B_iso stale_issue = Inr prev
         \<and> (prev = None
             \<or> (\<exists>u t. prev = Some (u, t) \<and> 30 < (instant noon_2024_03_20 - instant t) div us_per_day)))
     \<and> (\<exists>items rs. py_sorted_items True stale_nodes = Inr items
         \<and> map (\<lambda>it. stale_node B_iso noon_2024_03_20 (snd it)) items = map Inr rs
         \<and> [Stale (JStr ''u13'') (JStr ''stale'') 45 (JStr ''c13''),
             NoOracleComments (JStr ''u11'') (JStr ''silent'')]
           = concat (map (\<lambda>r. case r of None \<Rightarrow> [] | Some l \<Rightarrow> [l]) rs))"
    by blast
  with a b c d show ?thesis by blast
qed

text \<open>
  Claim C6 says that every node is reported exactly when it has no comment by a member of
  the organization or its retained comment is more than 30 days old. A node whose only
  comment is by a bot has no comment by a member, yet it gets no line: handling it raises
  \<^verbatim>\<open>KeyError('organization')\<close>, for the reason given with claim C5, and the exception ends
  the report for all nodes. The node without timeline entries is reported when it is
  alone, and not when the node with the comment by the bot is in the NodeSet. The
  script's own header announces the open issues and pull requests without a comment by
  someone in the organization in the last 30 days, and the node with the comment by the
  bot is one.
\<close>

theorem bot_comment_aborts_report:
  "last_oracle_comment_of B_iso silent_node = Inr None
   \<and> no_recent_activity B_iso noon_2024_03_20 [(JInt 11, silent_node)] =
       Inr [NoOracleComments (JStr ''u11'') (JStr ''silent'')]
   \<and> timeline_edges bot_only_node =
       Inr [comment_edge ''c17'' ''2024-03-02T10:00:00Z'' (bot_author ''dependabot'')]
   \<and> \<not> oracle_comment (comment_edge ''c17'' ''2024-03-02T10:00:00Z'' (bot_author ''dependabot''))
   \<and> stale_node B_iso noon_2024_03_20 bot_only_node = Inl (KeyError ''organization'')
   \<and> no_recent_activity B_iso noon_2024_03_20 [(JInt 11, silent_node), (JInt 15, bot_only_node)] =
       Inl (KeyError ''organization'')"
  by code_simp

section \<open>Properties of the yearly aggregator\<close>

lemma count_of_count_opened:
  "count_of (count_opened y k opy) y' k' = count_of opy y' k' + (if y' = y \<and> k' = k then 1 else 0)"
  by (auto simp: count_of_def count_opened_def update_conv' split: option.splits)

lemma has_bucket_count_opened:
  "has_bucket (count_opened y k opy) y' k' \<longleftrightarrow> has_bucket opy y' k' \<or> (y' = y \<and> k' = k)"
  by (auto simp: has_bucket_def count_opened_def update_conv' split: option.splits)

lemma yearly_loop_counts:
  assumes "yearly_loop B nodes opy = Inr opy'"
  shows "count_of opy' y k =
           count_of opy y k + int (length (filter (\<lambda>n. node_bucket B n = Inr (Some (y, k))) nodes))
       \<and> (has_bucket opy' y k \<longleftrightarrow>
            has_bucket opy y k \<or> (\<exists>n\<in>set nodes. node_bucket B n = Inr (Some (y, k))))"
  using assms
proof (induction nodes arbitrary: opy)
  case Nil
  then show ?case by simp
next
  case (Cons node nodes)
  from Cons.prems obtain b where b: "node_bucket B node = Inr b"
    by (cases "node_bucket B node") simp_all
  show ?case
  proof (cases b)
    case None
    with Cons.prems b have "yearly_loop B nodes opy = Inr opy'" by simp
    from Cons.IH [OF this] b None show ?thesis by simp
  next
    case (Some yk)
    obtain y0 k0 where yk: "yk = (y0, k0)" by (cases yk)
    with Cons.prems b Some have "yearly_loop B nodes (count_opened y0 k0 opy) = Inr opy'" by simp
    from Cons.IH [OF this] b Some yk show ?thesis
      by (auto simp: count_of_count_opened has_bucket_count_opened)
  qed
qed

lemma node_bucket_cases:
  assumes "node_bucket B node = Inr b"
  shows "\<exists>author. subscr node ''author'' = Inr author
           \<and> (if truthy author
               then \<exists>c created_at orgs. subscr node ''createdAt'' = Inr c
                      \<and> parse_datetime B c = Inr created_at \<and> author_orgs author = Inr orgs
                      \<and> b = Some (dt_year created_at,
                                  if JStr ''oracle'' \<in> orgs then ''oracle'' else ''other'')
               else b = None)"
  using assms
  by (auto simp: node_bucket_def bindE_def split: sum.splits if_splits)

text \<open>
  Claim C7 says that every node with a non-null author is counted. The loop tests
  \<^verbatim>\<open>if author:\<close>, and an empty object is false as well: a node whose author is the empty
  object, which is not null, is counted nowhere.
\<close>

theorem empty_author_not_counted:
  "subscr bot_node ''author'' = Inr (JObj []) \<and> JObj [] \<noteq> JNull
   \<and> node_bucket B_iso bot_node = Inr None
   \<and> opened_per_year B_iso [(JInt 6, bot_node)] = Inr []"
  by code_simp

text \<open>
  Claim C7 as amended: in the result of the aggregation the count under a year and a
  label is the number of nodes of the NodeSet that fall into this bucket, and a bucket is
  present exactly when a node falls into it. A node falls into a bucket exactly when its
  author is neither null nor empty (it is true as a condition); its year is the year of
  \<^verbatim>\<open>createdAt\<close> and its label is \<open>oracle\<close> when that login is among the organizations of
  the author, else \<open>other\<close>. Three nodes of 2021, two by members and one not, and one node
  of 2022, not by a member, give \<open>{2021: {oracle: 2, other: 1}, 2022: {other: 1}}\<close>.
\<close>

theorem yearly_counts:
  shows "(opened_per_year B nodes = Inr opy \<longrightarrow>
           (\<forall>y k. count_of opy y k =
                     int (length (filter (\<lambda>it. node_bucket B (snd it) = Inr (Some (y, k))) nodes)))
         \<and> (\<forall>y k. has_bucket opy y k \<longleftrightarrow>
                     (\<exists>it\<in>set nodes. node_bucket B (snd it) = Inr (Some (y, k)))))
       \<and> (node_bucket B node = Inr b \<longrightarrow>
           (\<exists>author. subscr node ''author'' = Inr author
              \<and> (if truthy author
                  then \<exists>c created_at orgs. subscr node ''createdAt'' = Inr c
                         \<and> parse_datetime B c = Inr created_at \<and> author_orgs author = Inr orgs
                         \<and> b = Some (dt_year created_at,
                                     if JStr ''oracle'' \<in> orgs then ''oracle'' else ''other'')
                  else b = None)))
       \<and> opened_per_year B_iso four_nodes =
           Inr [(2021, [(''oracle'', 2), (''other'', 1)]), (2022, [(''other'', 1)])]"
proof (intro conjI impI allI)
  fix y k
  assume "opened_per_year B nodes = Inr opy"
  then have loop: "yearly_loop B (map snd nodes) [] = Inr opy"
    by (simp add: opened_per_year_def)
  from yearly_loop_counts [OF loop, of y k]
  show "count_of opy y k =
          int (length (filter (\<lambda>it. node_bucket B (snd it) = Inr (Some (y, k))) nodes))"
    by (simp add: count_of_def filter_map comp_def)
  from yearly_loop_counts [OF loop, of y k]
  show "has_bucket opy y k \<longleftrightarrow> (\<exists>it\<in>set nodes. node_bucket B (snd it) = Inr (Some (y, k)))"
    by (simp add: has_bucket_def)
next
  assume "node_bucket B node = Inr b"
  then show "\<exists>author. subscr node ''author'' = Inr author
              \<and> (if truthy author
                  then \<exists>c created_at orgs. subscr node ''createdAt'' = Inr c
                         \<and> parse_datetime B c = Inr created_at \<and> author_orgs author = Inr orgs
                         \<and> b = Some (dt_year created_at,
                                     if JStr ''oracle'' \<in> orgs then ''oracle'' else ''other'')
                  else b = None)"
    by (rule node_bucket_cases)
next
  show "opened_per_year B_iso four_nodes =
           Inr [(2021, [(''oracle'', 2), (''other'', 1)]), (2022, [(''other'', 1)])]"
    by code_simp
qed

theorem yearly_counts_witness:
  "opened_per_year B_iso five_nodes =
     Inr [(2021, [(''oracle'', 2), (''other'', 1)]), (2022, [(''other'', 1)])]
   \<and> node_bucket B_iso (snd (five_nodes ! 4)) = Inr None
   \<and> node_bucket B_iso (snd (five_nodes ! 0)) = Inr (Some (2021, ''oracle''))
   \<and> (2::int) = int (length (filter (\<lambda>it. node_bucket B_iso (snd it) = Inr (Some (2021, ''oracle'')))
                       five_nodes))
   \<and> \<not> (\<exists>it\<in>set five_nodes. node_bucket B_iso (snd it) = Inr (Some (2022, ''oracle'')))
   \<and> (\<exists>author. subscr (snd (five_nodes ! 0)) ''author'' = Inr author \<and> truthy author
         \<and> (\<exists>c created_at orgs. subscr (snd (five_nodes ! 0)) ''createdAt'' = Inr c
               \<and> parse_datetime B_iso c = Inr created_at \<and> author_orgs author = Inr orgs
               \<and> dt_year created_at = 2021 \<and> JStr ''oracle'' \<in> orgs))"
proof -
  let ?opy = "[(2021, [(''oracle'', 2), (''other'', 1)]), (2022, [(''other'', 1)])]"
  have ev: "opened_per_year B_iso five_nodes = Inr ?opy"
    by code_simp
  have n4: "node_bucket B_iso (snd (five_nodes ! 4)) = Inr None"
    by code_simp
  have n0: "node_bucket B_iso (snd (five_nodes ! 0)) = Inr (Some (2021, ''oracle''))"
    by code_simp
  have c: "count_of ?opy 2021 ''oracle'' = 2"
    by (simp add: count_of_def)
  have h: "\<not> has_bucket ?opy 2022 ''oracle''"
    by (simp add: has_bucket_def)
  note inst = yearly_counts [of B_iso five_nodes ?opy "snd (five_nodes ! 0)" "Some (2021, ''oracle'')"]
  have both: "(\<forall>y k. count_of ?opy y k =
                     int (length (filter (\<lambda>it. node_bucket B_iso (snd it) = Inr (Some (y, k))) five_nodes)))
         \<and> (\<forall>y k. has_bucket ?opy y k \<longleftrightarrow>
                     (\<exists>it\<in>set five_nodes. node_bucket B_iso (snd it) = Inr (Some (y, k))))"
    by (rule inst [THEN conjunct1, THEN mp, OF ev])
  from both [THEN conjunct1, THEN spec, of 2021, THEN spec, of "''oracle''"] c
  have cnt: "(2::int) = int (length (filter (\<lambda>it. node_bucket B_iso (snd it) = Inr (Some (2021, ''oracle'')))
                       five_nodes))"
    by simp
  from both [THEN conjunct2, THEN spec, of 2022, THEN spec, of "''oracle''"] h
  have absent: "\<not> (\<exists>it\<in>set five_nodes. node_bucket B_iso (snd it) = Inr (Some (2022, ''oracle'')))"
    by simp
  from inst [THEN conjunct2, THEN conjunct1, THEN mp, OF n0]
  obtain author where a: "subscr (snd (five_nodes ! 0)) ''author'' = Inr author"
    and b: "if truthy author
            then \<exists>c created_at orgs. subscr (snd (five_nodes ! 0)) ''createdAt'' = Inr c
                   \<and> parse_datetime B_iso c = Inr created_at \<and> author_orgs author = Inr orgs
                   \<and> Some (2021::int, ''oracle'') = Some (dt_year created_at,
                               if JStr ''oracle'' \<in> orgs then ''oracle'' else ''other'')
            else Some (2021::int, ''oracle'') = None"
    by (elim exE conjE)
  from b have t: "truthy author"
    by (cases "truthy author") simp_all
  with b obtain c created_at orgs where d:
    "subscr (snd (five_nodes ! 0)) ''createdAt'' = Inr c"
    "parse_datetime B_iso c = Inr created_at" "author_orgs author = Inr orgs"
    "Some (2021::int, ''oracle'') = Some (dt_year created_at,
        if JStr ''oracle'' \<in> orgs then ''oracle'' else ''other'')"
    by auto
  from d(4) have "dt_year created_at = 2021" "JStr ''oracle'' \<in> orgs"
    by (simp_all split: if_splits)
  with a t d(1-3)
  have last: "\<exists>author. subscr (snd (five_nodes ! 0)) ''author'' = Inr author \<and> truthy author
         \<and> (\<exists>c created_at orgs. subscr (snd (five_nodes ! 0)) ''createdAt'' = Inr c
               \<and> parse_datetime B_iso c = Inr created_at \<and> author_orgs author = Inr orgs
               \<and> dt_year created_at = 2021 \<and> JStr ''oracle'' \<in> orgs)"
    by blast
  show ?thesis
    by (intro conjI) (rule ev n4 n0 cnt absent last)+
qed

lemma org_logins_edges: "org_logins (map org_edge orgs) = Inr (map JStr orgs)"
  by (induction orgs) (simp_all add: org_edge_def)

lemma frozenset_strings: "frozenset (map JStr orgs) = Inr (JStr ` set orgs)"
  by (induction orgs) simp_all

lemma author_orgs_user: "author_orgs (user_author login orgs) = Inr (JStr ` set orgs)"
  by (simp add: author_orgs_def user_author_def org_logins_edges frozenset_strings)

lemma node_bucket_user:
  assumes "parse_datetime B (JStr created_at) = Inr d"
  shows "node_bucket B (year_node number created_at (user_author login orgs)) =
           Inr (Some (dt_year d, if ''oracle'' \<in> set orgs then ''oracle'' else ''other''))"
proof -
  have "truthy (user_author login orgs)"
    by (simp add: user_author_def)
  moreover have "JStr ''oracle'' \<in> JStr ` set orgs \<longleftrightarrow> ''oracle'' \<in> set orgs"
    by auto
  ultimately show ?thesis
    using assms by (simp add: node_bucket_def year_node_def author_orgs_user del: parse_datetime.simps)
qed

lemma sublist_skip: "sublist xs ys \<Longrightarrow> sublist xs (zs @ ys)"
  by (metis append_assoc sublist_def)

lemma query_selects_node_info:
  "sublist node_info (get_open_nodes_query B node_type node_info states cursor)"
  unfolding get_open_nodes_query_def Let_def
  by (rule sublist_append_rightI | rule sublist_skip)+

text \<open>
  Claim C9: the field selection of the yearly report asks for
  \<^verbatim>\<open>organizations(first:5)\<close>, and so does every query built with it. The label of a node
  is decided by the organizations returned for its author alone: it is \<open>oracle\<close> exactly
  when that login is among them. So when the organizations returned are the first five
  memberships of the author and the organization of interest is not among these five,
  the node is counted under \<open>other\<close>.
\<close>

theorem affiliation_from_first_five:
  shows "sublist ''organizations(first:5)'' node_info2
       \<and> sublist node_info2 (get_open_nodes_query B node_type node_info2 states cursor)
       \<and> (parse_datetime B (JStr created_at) = Inr d \<longrightarrow>
            node_bucket B (year_node number created_at (user_author login orgs)) =
              Inr (Some (dt_year d, if ''oracle'' \<in> set orgs then ''oracle'' else ''other'')))
       \<and> (parse_datetime B (JStr created_at) = Inr d \<and> ''oracle'' \<notin> set (take 5 memberships) \<longrightarrow>
            node_bucket B (year_node number created_at (user_author login (take 5 memberships))) =
              Inr (Some (dt_year d, ''other'')))"
proof (intro conjI impI)
  show "sublist ''organizations(first:5)'' node_info2"
    by code_simp
  show "sublist node_info2 (get_open_nodes_query B node_type node_info2 states cursor)"
    by (rule query_selects_node_info)
next
  assume "parse_datetime B (JStr created_at) = Inr d"
  then show "node_bucket B (year_node number created_at (user_author login orgs)) =
              Inr (Some (dt_year d, if ''oracle'' \<in> set orgs then ''oracle'' else ''other''))"
    by (rule node_bucket_user)
next
  assume "parse_datetime B (JStr created_at) = Inr d \<and> ''oracle'' \<notin> set (take 5 memberships)"
  then show "node_bucket B (year_node number created_at (user_author login (take 5 memberships))) =
              Inr (Some (dt_year d, ''other''))"
    by (simp add: node_bucket_user del: parse_datetime.simps)
qed

theorem affiliation_from_first_five_witness:
  "''oracle'' \<in> set six_memberships
   \<and> node_bucket B_iso (year_node 8 ''2021-05-06T07:08:09Z'' (user_author ''zoe'' (take 5 six_memberships)))
       = Inr (Some (2021, ''other''))
   \<and> node_bucket B_iso (year_node 8 ''2021-05-06T07:08:09Z'' (user_author ''zoe'' [''x'', ''oracle'']))
       = Inr (Some (2021, ''oracle''))"
proof -
  have p: "parse_datetime B_iso (JStr ''2021-05-06T07:08:09Z'') = Inr (naive_datetime 2021 5 6 7 8 9)"
    by code_simp
  have y: "dt_year (naive_datetime 2021 5 6 7 8 9) = 2021"
    by code_simp
  have m: "''oracle'' \<in> set six_memberships"
    by (simp add: six_memberships_def)
  have n: "''oracle'' \<notin> set (take 5 six_memberships)"
    by (simp add: six_memberships_def)
  note inst = affiliation_from_first_five [of B_iso "''issue''" "''[OPEN,CLOSED]''" JNull
      "''2021-05-06T07:08:09Z''" "naive_datetime 2021 5 6 7 8 9" 8 "''zoe''" "[''x'', ''oracle'']"
      six_memberships]
  from inst [THEN conjunct2, THEN conjunct2, THEN conjunct2, THEN mp, OF conjI [OF p n]] y
  have a: "node_bucket B_iso (year_node 8 ''2021-05-06T07:08:09Z''
              (user_author ''zoe'' (take 5 six_memberships))) = Inr (Some (2021, ''other''))"
    by simp
  from inst [THEN conjunct2, THEN conjunct2, THEN conjunct1, THEN mp, OF p] y
  have b: "node_bucket B_iso (year_node 8 ''2021-05-06T07:08:09Z''
              (user_author ''zoe'' [''x'', ''oracle''])) = Inr (Some (2021, ''oracle''))"
    by simp
  show ?thesis
    by (intro conjI) (rule m a b)+
qed

section \<open>Failures of a fetch\<close>








end
